theory Spec2Isabelle
  imports Complex_Main
begin

section \<open>The image-load wait (\<^verbatim>\<open>waitForImageLoad\<close>, script.js lines 25-57)\<close>

text \<open>
  The promise executor runs synchronously; afterwards the only code of the helper that
  can run are the three callbacks it registered: \<^verbatim>\<open>onLoad\<close>, \<^verbatim>\<open>onError\<close> and the timer
  callback. The closure variables of one call are the fields of \<open>waiter\<close>; the field
  \<open>resolves\<close> counts the invocations of \<^verbatim>\<open>resolve\<close>, and \<open>clock\<close> is the time in
  milliseconds since the call.
\<close>

record image =
  complete :: bool
  naturalWidth :: nat

record waiter =
  fired :: bool
  load_listener :: bool
  error_listener :: bool
  timer :: "nat option"
  resolves :: nat
  clock :: nat

definition resolve :: "waiter \<Rightarrow> waiter" where
  "resolve w = w\<lparr>resolves := Suc (resolves w)\<rparr>"

definition cleanup :: "waiter \<Rightarrow> waiter" where
  "cleanup w = w\<lparr>load_listener := False, error_listener := False, timer := None\<rparr>"

definition onLoad :: "waiter \<Rightarrow> waiter" where
  "onLoad w = (if fired w then w else resolve (cleanup (w\<lparr>fired := True\<rparr>)))"

definition onError :: "waiter \<Rightarrow> waiter" where
  "onError w = (if fired w then w else resolve (cleanup (w\<lparr>fired := True\<rparr>)))"

definition onTimer :: "waiter \<Rightarrow> waiter" where
  "onTimer w = (if \<not> fired w then resolve (cleanup (w\<lparr>fired := True\<rparr>)) else w)"

definition default_timeout :: nat where
  "default_timeout = 1800"

definition blank_waiter :: waiter where
  "blank_waiter = \<lparr>fired = False, load_listener = False, error_listener = False,
     timer = None, resolves = 0, clock = 0\<rparr>"

text \<open>
  The executor. \<open>None\<close> for the image is JavaScript's \<^verbatim>\<open>null\<close>/\<^verbatim>\<open>undefined\<close>; \<open>None\<close> for
  the timeout is an omitted argument, which takes the default. A pending timer is
  stored with the time at which it is due.
\<close>

definition waitForImageLoad :: "image option \<Rightarrow> nat option \<Rightarrow> waiter" where
  "waitForImageLoad img timeout =
     (let t = (case timeout of None \<Rightarrow> default_timeout | Some d \<Rightarrow> d) in
      case img of
        None \<Rightarrow> resolve blank_waiter
      | Some i \<Rightarrow>
          if complete i \<and> naturalWidth i \<noteq> 0 then resolve blank_waiter
          else blank_waiter\<lparr>load_listener := True, error_listener := True, timer := Some t\<rparr>)"

text \<open>
  What the browser can do to a waiter: dispatch \<^verbatim>\<open>load\<close> or \<^verbatim>\<open>error\<close> on the image
  (a listener runs only while it is attached), or let time pass. When time passes, a
  pending timer whose due time has been reached runs its callback and is gone.
\<close>

datatype img_event = ImgLoad | ImgError | Elapse nat

fun deliver :: "waiter \<Rightarrow> img_event \<Rightarrow> waiter" where
  "deliver w ImgLoad = (if load_listener w then onLoad w else w)"
| "deliver w ImgError = (if error_listener w then onError w else w)"
| "deliver w (Elapse d) =
     (let w' = w\<lparr>clock := clock w + d\<rparr> in
      case timer w' of
        None \<Rightarrow> w'
      | Some due \<Rightarrow> if due \<le> clock w' then onTimer (w'\<lparr>timer := None\<rparr>) else w')"

definition run_waiter :: "waiter \<Rightarrow> img_event list \<Rightarrow> waiter" where
  "run_waiter w evs = foldl deliver w evs"

definition the_timeout :: "nat option \<Rightarrow> nat" where
  "the_timeout timeout = (case timeout of None \<Rightarrow> default_timeout | Some d \<Rightarrow> d)"

text \<open>A waiter is settled when \<^verbatim>\<open>resolve\<close> ran once and no callback is left to run.\<close>

definition settled :: "waiter \<Rightarrow> bool" where
  "settled w \<longleftrightarrow> resolves w = 1 \<and> \<not> load_listener w \<and> \<not> error_listener w \<and> timer w = None"

text \<open>A waiter is waiting when nothing fired yet and all three producers are armed.\<close>

definition waiting :: "nat \<Rightarrow> waiter \<Rightarrow> bool" where
  "waiting t w \<longleftrightarrow> resolves w = 0 \<and> \<not> fired w \<and> load_listener w \<and> error_listener w
     \<and> timer w = Some t \<and> clock w \<le> t"

definition is_producer :: "img_event \<Rightarrow> bool" where
  "is_producer e = (case e of ImgLoad \<Rightarrow> True | ImgError \<Rightarrow> True | Elapse d \<Rightarrow> False)"

section \<open>The document\<close>

text \<open>
  The part of the DOM the script reads and writes. An element carries the identity of
  its object (\<open>nid\<close>; two references are \<^verbatim>\<open>===\<close> exactly when their \<open>nid\<close> agree), its
  lower-case tag name, its \<^verbatim>\<open>id\<close> attribute (empty when absent), its class tokens and
  its other attributes. The document is the tree below \<^verbatim>\<open>document.body\<close>.
\<close>

record elem =
  nid :: nat
  tag :: string
  ident :: string
  classes :: "string list"
  attrs :: "(string \<times> string) list"

datatype node = Node (el: elem) (kids: "node list")

text \<open>The three forms of selector the script uses: \<^verbatim>\<open>#id\<close>, \<^verbatim>\<open>.class\<close> and a list of tag names.\<close>

datatype selector = ById string | ByClass string | ByTags "string list"

fun matches :: "selector \<Rightarrow> elem \<Rightarrow> bool" where
  "matches (ById i) e = (ident e = i)"
| "matches (ByClass c) e = (c \<in> set (classes e))"
| "matches (ByTags ts) e = (tag e \<in> set ts)"

text \<open>Tree order: a node before its children, children from first to last.\<close>

fun flat :: "node \<Rightarrow> node list" where
  "flat (Node e ks) = Node e ks # concat (map flat ks)"

definition descendants :: "node \<Rightarrow> node list" where
  "descendants n = concat (map flat (kids n))"

definition first_of :: "'a list \<Rightarrow> 'a option" where
  "first_of xs = (case xs of [] \<Rightarrow> None | x # _ \<Rightarrow> Some x)"

text \<open>\<^verbatim>\<open>document.querySelectorAll\<close> and \<^verbatim>\<open>document.querySelector\<close> (the script's \<^verbatim>\<open>qsa\<close>, \<^verbatim>\<open>qs\<close>).\<close>

definition qsa :: "node \<Rightarrow> selector \<Rightarrow> node list" where
  "qsa d sel = filter (\<lambda>n. matches sel (el n)) (flat d)"

definition qs :: "node \<Rightarrow> selector \<Rightarrow> node option" where
  "qs d sel = first_of (qsa d sel)"

text \<open>\<^verbatim>\<open>element.querySelectorAll\<close> and \<^verbatim>\<open>element.querySelector\<close>: descendants only.\<close>

definition querySelectorAll :: "node \<Rightarrow> selector \<Rightarrow> node list" where
  "querySelectorAll n sel = filter (\<lambda>k. matches sel (el k)) (descendants n)"

definition querySelector :: "node \<Rightarrow> selector \<Rightarrow> node option" where
  "querySelector n sel = first_of (querySelectorAll n sel)"

text \<open>The elements from the root down to the node with identity \<open>i\<close>; empty when absent.\<close>

fun first_path :: "elem list list \<Rightarrow> elem list" where
  "first_path [] = []"
| "first_path ([] # ps) = first_path ps"
| "first_path (p # ps) = p"

fun path_to :: "nat \<Rightarrow> node \<Rightarrow> elem list" where
  "path_to i (Node e ks) =
     (if nid e = i then [e]
      else (case first_path (map (path_to i) ks) of [] \<Rightarrow> [] | p # ps \<Rightarrow> e # p # ps))"

text \<open>\<^verbatim>\<open>element.closest(sel)\<close>: the nearest of the element and its ancestors that matches.\<close>

definition closest :: "node \<Rightarrow> nat \<Rightarrow> selector \<Rightarrow> elem option" where
  "closest d i sel = find (matches sel) (rev (path_to i d))"

text \<open>\<^verbatim>\<open>element.parentNode\<close>, for an element below the root; \<open>None\<close> for a detached one.\<close>

definition parentNode :: "node \<Rightarrow> nat \<Rightarrow> elem option" where
  "parentNode d i = (case rev (path_to i d) of _ # p # _ \<Rightarrow> Some p | _ \<Rightarrow> None)"

text \<open>\<^verbatim>\<open>a.contains(b)\<close>: \<open>b\<close> is \<open>a\<close> or lies below it.\<close>

definition contains :: "node \<Rightarrow> nat \<Rightarrow> bool" where
  "contains a i = (i \<in> set (map (\<lambda>n. nid (el n)) (flat a)))"

text \<open>Writes to the element with identity \<open>i\<close>.\<close>

fun map_el :: "nat \<Rightarrow> (elem \<Rightarrow> elem) \<Rightarrow> node \<Rightarrow> node" where
  "map_el i g (Node e ks) = Node (if nid e = i then g e else e) (map (map_el i g) ks)"

definition add_token :: "string \<Rightarrow> string list \<Rightarrow> string list" where
  "add_token c cs = (if c \<in> set cs then cs else cs @ [c])"

definition remove_token :: "string \<Rightarrow> string list \<Rightarrow> string list" where
  "remove_token c cs = filter (\<lambda>x. x \<noteq> c) cs"

fun set_attr :: "string \<Rightarrow> string \<Rightarrow> (string \<times> string) list \<Rightarrow> (string \<times> string) list" where
  "set_attr k v [] = [(k, v)]"
| "set_attr k v ((k', v') # r) = (if k' = k then (k, v) # r else (k', v') # set_attr k v r)"

definition classList_add :: "nat \<Rightarrow> string \<Rightarrow> node \<Rightarrow> node" where
  "classList_add i c d = map_el i (\<lambda>e. e\<lparr>classes := add_token c (classes e)\<rparr>) d"

definition classList_remove :: "nat \<Rightarrow> string \<Rightarrow> node \<Rightarrow> node" where
  "classList_remove i c d = map_el i (\<lambda>e. e\<lparr>classes := remove_token c (classes e)\<rparr>) d"

definition classList_contains :: "node \<Rightarrow> string \<Rightarrow> bool" where
  "classList_contains n c = (c \<in> set (classes (el n)))"

definition setAttribute :: "nat \<Rightarrow> string \<Rightarrow> string \<Rightarrow> node \<Rightarrow> node" where
  "setAttribute i k v d = map_el i (\<lambda>e. e\<lparr>attrs := set_attr k v (attrs e)\<rparr>) d"

definition getAttribute :: "elem \<Rightarrow> string \<Rightarrow> string option" where
  "getAttribute e k = map_of (attrs e) k"

text \<open>\<^verbatim>\<open>document.body.appendChild(c)\<close> and \<^verbatim>\<open>p.removeChild(c)\<close>.\<close>

definition body_appendChild :: "node \<Rightarrow> node \<Rightarrow> node" where
  "body_appendChild c d = Node (el d) (kids d @ [c])"

fun removeChild :: "nat \<Rightarrow> nat \<Rightarrow> node \<Rightarrow> node" where
  "removeChild p c (Node e ks) =
     Node e (if nid e = p then filter (\<lambda>k. nid (el k) \<noteq> c) (map (removeChild p c) ks)
             else map (removeChild p c) ks)"

text \<open>
  The target of an event: an element, or a node without a \<^verbatim>\<open>closest\<close> method (the
  document itself), which no element is identical to and no element contains.
\<close>

datatype target = Element nat | NonElement

section \<open>The lightbox (\<^verbatim>\<open>initPosterClickToEnlarge\<close>, script.js lines 136-201)\<close>

text \<open>
  One call of \<^verbatim>\<open>openLightbox\<close> that passes its guard creates four elements and three
  listeners that share them; \<open>lightbox\<close> holds the identities of the four elements,
  which is all the closures \<^verbatim>\<open>closeLightbox\<close> and \<^verbatim>\<open>escClose\<close> ever use.
\<close>

record lightbox =
  lb :: nat
  lb_backdrop :: nat
  lb_imgWrap :: nat
  lb_img :: nat

text \<open>
  A click listener is either the one on the poster's wrapper (its closure holds the
  poster image found at initialisation) or \<^verbatim>\<open>closeLightbox\<close> of some lightbox.
\<close>

datatype listener = OnPosterClick elem | OnClose lightbox

text \<open>
  The page as the lightbox controller sees it: the document, the identity the next
  created element will get, the click listeners in the order of registration (with the
  element each is registered on), the \<^verbatim>\<open>keydown\<close> listeners registered on the window
  with \<^verbatim>\<open>once: true\<close>, and the closing timelines that are running, oldest first. The tweens
  of the timelines change opacity and scale only, which nothing in the script reads;
  of a timeline the state keeps its completion callback. \<open>resolved_src\<close> is what the
  poster's \<^verbatim>\<open>src\<close> property returns when its \<^verbatim>\<open>src\<close> attribute is missing or empty.
\<close>

record lpage =
  ldoc :: node
  fresh :: nat
  resolved_src :: string
  click_listeners :: "(nat \<times> listener) list"
  keydown_once :: "lightbox list"
  out_timelines :: "lightbox list"

text \<open>The poster object as it is now: its element in the document, else as it was captured.\<close>

definition current :: "node \<Rightarrow> elem \<Rightarrow> elem" where
  "current d p = (case find (\<lambda>n. nid (el n) = nid p) (flat d) of Some n \<Rightarrow> el n | None \<Rightarrow> p)"

definition closeLightbox :: "lightbox \<Rightarrow> lpage \<Rightarrow> lpage" where
  "closeLightbox c s = s\<lparr>out_timelines := out_timelines s @ [c]\<rparr>"

definition new_div :: "nat \<Rightarrow> string \<Rightarrow> elem" where
  "new_div i c = \<lparr>nid = i, tag = ''div'', ident = [], classes = [c], attrs = []\<rparr>"

definition new_img :: "nat \<Rightarrow> string \<Rightarrow> string \<Rightarrow> elem" where
  "new_img i src alt =
     \<lparr>nid = i, tag = ''img'', ident = [], classes = [], attrs = [(''src'', src), (''alt'', alt)]\<rparr>"

definition lightbox_tree :: "lightbox \<Rightarrow> string \<Rightarrow> string \<Rightarrow> node" where
  "lightbox_tree c src alt =
     Node (new_div (lb c) ''tric-lightbox'')
       [Node (new_div (lb_backdrop c) ''tric-lightbox-backdrop'') [],
        Node (new_div (lb_imgWrap c) ''tric-lightbox-wrap'') [Node (new_img (lb_img c) src alt) []]]"

definition openLightbox :: "elem \<Rightarrow> lpage \<Rightarrow> lpage" where
  "openLightbox poster s =
     (if qs (ldoc s) (ByClass ''tric-lightbox'') \<noteq> None then s
      else
        let p = current (ldoc s) poster;
            src = (case getAttribute p ''src'' of
                     None \<Rightarrow> resolved_src s
                   | Some v \<Rightarrow> if v = [] then resolved_src s else v);
            alt = (case getAttribute p ''alt'' of None \<Rightarrow> [] | Some v \<Rightarrow> v);
            i = fresh s;
            c = \<lparr>lb = i, lb_backdrop = i + 1, lb_imgWrap = i + 2, lb_img = i + 3\<rparr>
        in s\<lparr>ldoc := body_appendChild (lightbox_tree c src alt) (ldoc s),
               fresh := i + 4,
               click_listeners := click_listeners s @ [(lb_backdrop c, OnClose c), (lb_img c, OnClose c)],
               keydown_once := keydown_once s @ [c]\<rparr>)"

text \<open>
  The completion callback of a closing timeline:
  \<^verbatim>\<open>if (lb && lb.parentNode) lb.parentNode.removeChild(lb)\<close>.
\<close>

definition out_onComplete :: "lightbox \<Rightarrow> lpage \<Rightarrow> lpage" where
  "out_onComplete c s =
     (case parentNode (ldoc s) (lb c) of
        None \<Rightarrow> s
      | Some p \<Rightarrow> s\<lparr>ldoc := removeChild (nid p) (lb c) (ldoc s)\<rparr>)"

text \<open>
  \<^verbatim>\<open>initPosterClickToEnlarge\<close>: without the wrapper or the poster nothing is registered.
\<close>

definition initPosterClickToEnlarge :: "node \<Rightarrow> nat \<Rightarrow> string \<Rightarrow> lpage" where
  "initPosterClickToEnlarge d i r =
     (let s = \<lparr>ldoc = d, fresh = i, resolved_src = r, click_listeners = [],
                keydown_once = [], out_timelines = []\<rparr>
      in case qs d (ByClass ''image-container'') of
           None \<Rightarrow> s
         | Some posterWrap \<Rightarrow>
             (case qs d (ById ''posterImage'') of
                None \<Rightarrow> s
              | Some poster \<Rightarrow>
                  s\<lparr>click_listeners := [(nid (el posterWrap), OnPosterClick (el poster))]\<rparr>))"

text \<open>
  What the browser does with the page. A click on an element of the document bubbles
  from the target to the root and runs, at each element, the listeners registered on
  it. A key press runs every \<^verbatim>\<open>once\<close> listener of the window and removes it, whatever
  the key; \<^verbatim>\<open>escClose\<close> closes on Escape only. Closing timelines last equally long, so
  they complete in the order they were started.
\<close>

datatype lb_event = LbClick nat | LbKeyDown string | LbOutComplete

definition run_listener :: "lpage \<Rightarrow> listener \<Rightarrow> lpage" where
  "run_listener s h = (case h of OnPosterClick p \<Rightarrow> openLightbox p s | OnClose c \<Rightarrow> closeLightbox c s)"

definition listeners_on :: "lpage \<Rightarrow> nat \<Rightarrow> listener list" where
  "listeners_on s i = map snd (filter (\<lambda>r. fst r = i) (click_listeners s))"

definition dispatch_at :: "lpage \<Rightarrow> nat \<Rightarrow> lpage" where
  "dispatch_at s i = foldl run_listener s (listeners_on s i)"

definition lb_click :: "nat \<Rightarrow> lpage \<Rightarrow> lpage" where
  "lb_click i s = foldl dispatch_at s (map nid (rev (path_to i (ldoc s))))"

definition escClose :: "string \<Rightarrow> lpage \<Rightarrow> lightbox \<Rightarrow> lpage" where
  "escClose k s c = (if k = ''Escape'' then closeLightbox c s else s)"

definition lb_keydown :: "string \<Rightarrow> lpage \<Rightarrow> lpage" where
  "lb_keydown k s = foldl (escClose k) (s\<lparr>keydown_once := []\<rparr>) (keydown_once s)"

definition lb_out_complete :: "lpage \<Rightarrow> lpage" where
  "lb_out_complete s =
     (case out_timelines s of [] \<Rightarrow> s | c # r \<Rightarrow> out_onComplete c (s\<lparr>out_timelines := r\<rparr>))"

fun lb_step :: "lpage \<Rightarrow> lb_event \<Rightarrow> lpage" where
  "lb_step s (LbClick i) = lb_click i s"
| "lb_step s (LbKeyDown k) = lb_keydown k s"
| "lb_step s LbOutComplete = lb_out_complete s"

definition lb_run :: "lpage \<Rightarrow> lb_event list \<Rightarrow> lpage" where
  "lb_run s evs = foldl lb_step s evs"

text \<open>The number of lightbox overlays in the document.\<close>

definition overlays :: "node \<Rightarrow> nat" where
  "overlays d = length (qsa d (ByClass ''tric-lightbox''))"

text \<open>A small page: the body, the poster's wrapper and the poster in it.\<close>

definition poster_page :: node where
  "poster_page =
     Node \<lparr>nid = 0, tag = ''body'', ident = [], classes = [], attrs = []\<rparr>
       [Node \<lparr>nid = 1, tag = ''div'', ident = [], classes = [''image-container''], attrs = []\<rparr>
          [Node \<lparr>nid = 2, tag = ''img'', ident = ''posterImage'', classes = [],
                 attrs = [(''src'', ''poster.jpg''), (''alt'', ''Poster'')]\<rparr> []]]"

definition poster_state :: lpage where
  "poster_state = initPosterClickToEnlarge poster_page 3 ''http://example.org/poster.jpg''"

definition poster_el :: elem where
  "poster_el = \<lparr>nid = 2, tag = ''img'', ident = ''posterImage'', classes = [],
     attrs = [(''src'', ''poster.jpg''), (''alt'', ''Poster'')]\<rparr>"

text \<open>The identities of the elements of a document, in tree order.\<close>

definition ids :: "node \<Rightarrow> nat list" where
  "ids d = map (\<lambda>n. nid (el n)) (flat d)"

text \<open>The closure variables of the lightbox that \<^verbatim>\<open>openLightbox\<close> creates on page \<open>s\<close>.\<close>

definition opened :: "lpage \<Rightarrow> lightbox" where
  "opened s = \<lparr>lb = fresh s, lb_backdrop = fresh s + 1, lb_imgWrap = fresh s + 2, lb_img = fresh s + 3\<rparr>"

text \<open>
  New elements get identities no element or listener of the page has: every identity
  in use is below \<open>fresh\<close>.
\<close>

definition allocated :: "lpage \<Rightarrow> bool" where
  "allocated s \<longleftrightarrow>
     list_all (\<lambda>i. i < fresh s) (ids (ldoc s)) \<and>
     list_all (\<lambda>r. fst r < fresh s) (click_listeners s)"

section \<open>The modal (\<^verbatim>\<open>initModal\<close>, script.js lines 242-334)\<close>

record modal_els =
  modal :: node
  backdrop :: "node option"
  content :: "node option"
  closeBtns :: "node list"

definition getModalEls :: "node \<Rightarrow> modal_els option" where
  "getModalEls d =
     (case qs d (ById ''detailsModal'') of
        None \<Rightarrow> None
      | Some m \<Rightarrow>
          Some \<lparr>modal = m,
                backdrop = querySelector m (ByClass ''modal-backdrop''),
                content = querySelector m (ByClass ''modal-content''),
                closeBtns = querySelectorAll m (ByClass ''modal-close-btn'')\<rparr>)"

text \<open>
  A timeline is kept as the targets of its tweens, in order; a target is the identity
  of an element, or \<open>None\<close> for \<^verbatim>\<open>null\<close>. The calls into the animation library are
  recorded in the order they are made: the library only changes opacity and position
  of its targets, which the script never reads back.
\<close>

type_synonym timeline = "nat option list"

datatype gsap_call =
    GsapSet "nat option list" "(string \<times> string) list"
  | GsapTimeline timeline
  | Play timeline

text \<open>
  The page as the modal controller sees it: the document, the two module-level
  timeline handles, the callbacks passed to \<^verbatim>\<open>closeTL.play(0).then(...)\<close> that wait for the
  close timeline to complete (each holds the modal element of its call), the calls
  made into the animation library, the console, the focused element, the elements
  that the browser lets take the focus at present (that depends on attributes and
  styles the script does not look at: a link without \<^verbatim>\<open>href\<close>, a disabled or a hidden
  control cannot), and the exceptions that left a handler uncaught.
\<close>

record mpage =
  mdoc :: node
  openTL :: "timeline option"
  closeTL :: "timeline option"
  close_then :: "nat list"
  gsap_calls :: "gsap_call list"
  console :: "string list"
  activeElement :: "nat option"
  can_focus :: "nat list"
  uncaught :: "string list"

definition node_id :: "node option \<Rightarrow> nat option" where
  "node_id n = map_option (\<lambda>k. nid (el k)) n"

text \<open>
  The animation library and missing targets. Given a single target that is \<^verbatim>\<open>null\<close>,
  \<^verbatim>\<open>gsap.set\<close>, \<^verbatim>\<open>to\<close> and \<^verbatim>\<open>fromTo\<close> warn and do nothing. Given an array of targets,
  \<^verbatim>\<open>gsap.set\<close> reads a property of the first one before it drops the missing ones: with
  \<^verbatim>\<open>null\<close> in the first place it throws a TypeError, a \<^verbatim>\<open>null\<close> further back is skipped.
\<close>

definition set_array_throws :: "nat option list \<Rightarrow> bool" where
  "set_array_throws targets = (case targets of None # _ \<Rightarrow> True | _ \<Rightarrow> False)"

text \<open>
  \<^verbatim>\<open>buildTimelines\<close>: its first statement is \<^verbatim>\<open>gsap.set([backdrop, content], ...)\<close>. When that
  throws, nothing has been assigned yet; the result is then the exception (\<open>Inl\<close>).
\<close>

definition buildTimelines :: "modal_els option \<Rightarrow> mpage \<Rightarrow> string + mpage" where
  "buildTimelines modalEls s =
     (case modalEls of
        None \<Rightarrow> Inr s
      | Some els \<Rightarrow>
          let b = node_id (backdrop els); c = node_id (content els) in
          if set_array_throws [b, c] then Inl ''TypeError''
          else
            Inr (s\<lparr>gsap_calls := gsap_calls s @
                     [GsapSet [b, c] [(''clearProps'', ''all'')], GsapTimeline [b, c],
                      GsapTimeline [c, b]],
                   openTL := Some [b, c],
                   closeTL := Some [c, b]\<rparr>))"

definition focusable_selector :: selector where
  "focusable_selector = ByTags [''a'', ''button'', ''input'', ''textarea'', ''select'']"

text \<open>
  \<^verbatim>\<open>element.focus()\<close>: an element that can take the focus becomes the focused one; on any
  other element the call does nothing.
\<close>

definition focus_el :: "nat \<Rightarrow> mpage \<Rightarrow> mpage" where
  "focus_el i s = (if i \<in> set (can_focus s) then s\<lparr>activeElement := Some i\<rparr> else s)"

text \<open>
  \<^verbatim>\<open>if (focusable.length) focusable[0].focus()\<close>. The \<^verbatim>\<open>focusin\<close> event a successful call
  raises has its target inside the modal; lemma \<open>on_focusin_after_focus\<close> shows that the
  script's own \<^verbatim>\<open>focusin\<close> listener does nothing with it.
\<close>

definition focus_first :: "node \<Rightarrow> mpage \<Rightarrow> mpage" where
  "focus_first m s =
     (case querySelectorAll m focusable_selector of
        [] \<Rightarrow> s
      | f # _ \<Rightarrow> focus_el (nid (el f)) s)"

text \<open>
  An exception ends the function where it is thrown and leaves the listener uncaught;
  what was written before stays written. Calling a method of a timeline handle that is
  still \<^verbatim>\<open>null\<close> throws a TypeError.
\<close>

definition openModal :: "mpage \<Rightarrow> mpage" where
  "openModal s =
     (case getModalEls (mdoc s) of
        None \<Rightarrow> s\<lparr>console := console s @ [''Modal not found'']\<rparr>
      | Some els \<Rightarrow>
          let m = nid (el (modal els));
              s1 = s\<lparr>mdoc := setAttribute m ''aria-hidden'' ''false''
                                (classList_add m ''is-open'' (mdoc s))\<rparr>
          in case (if openTL s1 = None then buildTimelines (Some els) s1 else Inr s1) of
               Inl e \<Rightarrow> s1\<lparr>uncaught := uncaught s1 @ [e]\<rparr>
             | Inr s2 \<Rightarrow>
                 let s3 = s2\<lparr>gsap_calls := gsap_calls s2 @
                            [GsapSet [node_id (backdrop els)] [(''autoAlpha'', ''0'')],
                             GsapSet [node_id (content els)]
                               [(''y'', ''18''), (''autoAlpha'', ''0'')]]\<rparr>
                 in case openTL s3 of
                      None \<Rightarrow> s3\<lparr>uncaught := uncaught s3 @ [''TypeError'']\<rparr>
                    | Some tline \<Rightarrow>
                        focus_first (modal els) (s3\<lparr>gsap_calls := gsap_calls s3 @ [Play tline]\<rparr>))"

definition closeModal :: "mpage \<Rightarrow> mpage" where
  "closeModal s =
     (case getModalEls (mdoc s) of
        None \<Rightarrow> s
      | Some els \<Rightarrow>
          (case (if closeTL s = None then buildTimelines (Some els) s else Inr s) of
             Inl e \<Rightarrow> s\<lparr>uncaught := uncaught s @ [e]\<rparr>
           | Inr s1 \<Rightarrow>
               (case closeTL s1 of
                  None \<Rightarrow> s1\<lparr>uncaught := uncaught s1 @ [''TypeError'']\<rparr>
                | Some tline \<Rightarrow>
                    s1\<lparr>gsap_calls := gsap_calls s1 @ [Play tline],
                       close_then := close_then s1 @ [nid (el (modal els))]\<rparr>)))"

text \<open>The callback passed to \<^verbatim>\<open>then\<close>, for the modal element \<open>m\<close> its call had found.\<close>

definition close_callback :: "mpage \<Rightarrow> nat \<Rightarrow> mpage" where
  "close_callback s m =
     s\<lparr>mdoc := setAttribute m ''aria-hidden'' ''true'' (classList_remove m ''is-open'' (mdoc s))\<rparr>"

text \<open>The close timeline completes: the waiting callbacks run, in order.\<close>

definition closeTL_complete :: "mpage \<Rightarrow> mpage" where
  "closeTL_complete s = foldl close_callback (s\<lparr>close_then := []\<rparr>) (close_then s)"

text \<open>\<^verbatim>\<open>t.closest && t.closest(sel)\<close>\<close>

definition has_closest :: "node \<Rightarrow> target \<Rightarrow> selector \<Rightarrow> bool" where
  "has_closest d t sel =
     (case t of NonElement \<Rightarrow> False | Element i \<Rightarrow> closest d i sel \<noteq> None)"

text \<open>\<^verbatim>\<open>t === els.backdrop\<close>\<close>

definition is_backdrop :: "target \<Rightarrow> modal_els \<Rightarrow> bool" where
  "is_backdrop t els =
     (case t of
        NonElement \<Rightarrow> False
      | Element i \<Rightarrow> (case backdrop els of None \<Rightarrow> False | Some b \<Rightarrow> i = nid (el b)))"

text \<open>
  The delegated \<^verbatim>\<open>click\<close> listener of the document. Its calls of \<^verbatim>\<open>preventDefault\<close> stop
  the browser's own reaction to the click and leave the page as it is.
\<close>

definition on_click :: "target \<Rightarrow> mpage \<Rightarrow> mpage" where
  "on_click t s =
     (if has_closest (mdoc s) t (ById ''viewDetailsBtn'') then openModal s
      else
        case getModalEls (mdoc s) of
          None \<Rightarrow> s
        | Some els \<Rightarrow>
            if has_closest (mdoc s) t (ByClass ''modal-close-btn'') then closeModal s
            else if is_backdrop t els then closeModal s
            else s)"

text \<open>The \<^verbatim>\<open>keydown\<close> listener of the window.\<close>

definition on_keydown :: "string \<Rightarrow> mpage \<Rightarrow> mpage" where
  "on_keydown k s =
     (if k = ''Escape'' then
        (case getModalEls (mdoc s) of
           None \<Rightarrow> s
         | Some els \<Rightarrow> if classList_contains (modal els) ''is-open'' then closeModal s else s)
      else s)"

text \<open>\<^verbatim>\<open>modal.contains(e.target)\<close>\<close>

definition contains_target :: "node \<Rightarrow> target \<Rightarrow> bool" where
  "contains_target m t = (case t of NonElement \<Rightarrow> False | Element i \<Rightarrow> contains m i)"

text \<open>The \<^verbatim>\<open>focusin\<close> listener of the document.\<close>

definition on_focusin :: "target \<Rightarrow> mpage \<Rightarrow> mpage" where
  "on_focusin t s =
     (case getModalEls (mdoc s) of
        None \<Rightarrow> s
      | Some els \<Rightarrow>
          if \<not> classList_contains (modal els) ''is-open'' then s
          else if \<not> contains_target (modal els) t then focus_first (modal els) s
          else s)"

text \<open>
  \<^verbatim>\<open>initModal\<close>: the handles start as \<^verbatim>\<open>null\<close>; \<open>a\<close> is the element that has the focus and
  \<open>fs\<close> are the elements that can take it.
\<close>

definition initModal :: "node \<Rightarrow> nat option \<Rightarrow> nat list \<Rightarrow> mpage" where
  "initModal d a fs =
     \<lparr>mdoc = d, openTL = None, closeTL = None, close_then = [], gsap_calls = [],
      console = [], activeElement = a, can_focus = fs, uncaught = []\<rparr>"

text \<open>
  A \<^verbatim>\<open>focusin\<close> event tells that its target has just taken the focus: the browser has
  made it the focused element before the listener runs.
\<close>

definition browser_focus :: "target \<Rightarrow> mpage \<Rightarrow> mpage" where
  "browser_focus t s = (case t of NonElement \<Rightarrow> s | Element i \<Rightarrow> s\<lparr>activeElement := Some i\<rparr>)"

text \<open>
  What can happen to the page: a click, a key press, a focus change, the completion of
  the close timeline, a change of the document by something other than this
  controller (the host page replacing or removing elements), and a change of which
  elements can take the focus.
\<close>

datatype m_event =
    MClick target
  | MKeyDown string
  | MFocusIn target
  | MCloseDone
  | MDomChange node
  | MFocusable "nat list"

fun m_step :: "mpage \<Rightarrow> m_event \<Rightarrow> mpage" where
  "m_step s (MClick t) = on_click t s"
| "m_step s (MKeyDown k) = on_keydown k s"
| "m_step s (MFocusIn t) = on_focusin t (browser_focus t s)"
| "m_step s MCloseDone = closeTL_complete s"
| "m_step s (MDomChange d) = s\<lparr>mdoc := d\<rparr>"
| "m_step s (MFocusable fs) = s\<lparr>can_focus := fs\<rparr>"

definition m_run :: "mpage \<Rightarrow> m_event list \<Rightarrow> mpage" where
  "m_run s evs = foldl m_step s evs"

definition is_dom_change :: "m_event \<Rightarrow> bool" where
  "is_dom_change e = (case e of MDomChange d \<Rightarrow> True | _ \<Rightarrow> False)"

text \<open>The number of timelines created so far.\<close>

definition is_creation :: "gsap_call \<Rightarrow> bool" where
  "is_creation c = (case c of GsapTimeline tline \<Rightarrow> True | _ \<Rightarrow> False)"

definition timelines_created :: "mpage \<Rightarrow> nat" where
  "timelines_created s = length (filter is_creation (gsap_calls s))"

text \<open>The modal element of the document, if there is one.\<close>

definition modal_el :: "node \<Rightarrow> elem option" where
  "modal_el d = map_option (\<lambda>els. el (modal els)) (getModalEls d)"

text \<open>The targets the timelines would get if they were built from the document now.\<close>

definition targets_now :: "node \<Rightarrow> (nat option \<times> nat option) option" where
  "targets_now d =
     map_option (\<lambda>els. (node_id (backdrop els), node_id (content els))) (getModalEls d)"

text \<open>
  A page with an open-button and a modal: the backdrop holds the content, the content
  a heading, a close button with an icon in it, and a link.
\<close>

definition plain :: "nat \<Rightarrow> string \<Rightarrow> string \<Rightarrow> string list \<Rightarrow> elem" where
  "plain i t d cs = \<lparr>nid = i, tag = t, ident = d, classes = cs, attrs = []\<rparr>"

definition modal_page :: node where
  "modal_page =
     Node (plain 0 ''body'' [] [])
       [Node (plain 1 ''button'' ''viewDetailsBtn'' [''btn'']) [Node (plain 2 ''span'' [] []) []],
        Node (plain 3 ''div'' ''detailsModal'' [''modal''])
          [Node (plain 4 ''div'' [] [''modal-backdrop''])
             [Node (plain 5 ''div'' [] [''modal-content''])
                [Node (plain 6 ''h2'' [] []) [],
                 Node (plain 7 ''button'' [] [''modal-close-btn'']) [Node (plain 8 ''span'' [] []) []],
                 Node ((plain 9 ''a'' [] [])\<lparr>attrs := [(''href'', ''#'')]\<rparr>) []]]]]"

text \<open>The same page without the modal.\<close>

definition bare_page :: node where
  "bare_page =
     Node (plain 0 ''body'' [] [])
       [Node (plain 1 ''button'' ''viewDetailsBtn'' [''btn'']) [Node (plain 2 ''span'' [] []) []]]"

text \<open>
  A write to an element is harmless for the queries of the controller when it leaves
  the identity, the tag, the \<^verbatim>\<open>id\<close> and every class token other than \<^verbatim>\<open>is-open\<close> alone.
\<close>

definition harmless :: "(elem \<Rightarrow> elem) \<Rightarrow> bool" where
  "harmless g \<longleftrightarrow>
     (\<forall>e. nid (g e) = nid e \<and> tag (g e) = tag e \<and> ident (g e) = ident e \<and>
          (\<forall>c. c \<noteq> ''is-open'' \<longrightarrow> (c \<in> set (classes (g e))) = (c \<in> set (classes e))))"

text \<open>A selector that does not look at the \<^verbatim>\<open>is-open\<close> token.\<close>

definition blind :: "selector \<Rightarrow> bool" where
  "blind sel = (case sel of ByClass c \<Rightarrow> c \<noteq> ''is-open'' | _ \<Rightarrow> True)"

definition write_els :: "nat \<Rightarrow> (elem \<Rightarrow> elem) \<Rightarrow> modal_els \<Rightarrow> modal_els" where
  "write_els i g els =
     \<lparr>modal = map_el i g (modal els),
      backdrop = map_option (map_el i g) (backdrop els),
      content = map_option (map_el i g) (content els),
      closeBtns = map (map_el i g) (closeBtns els)\<rparr>"

definition mark_open :: "elem \<Rightarrow> elem" where
  "mark_open e = e\<lparr>classes := add_token ''is-open'' (classes e)\<rparr>"

definition mark_closed :: "elem \<Rightarrow> elem" where
  "mark_closed e = e\<lparr>classes := remove_token ''is-open'' (classes e)\<rparr>"

definition aria_hidden :: "string \<Rightarrow> elem \<Rightarrow> elem" where
  "aria_hidden v e = e\<lparr>attrs := set_attr ''aria-hidden'' v (attrs e)\<rparr>"

text \<open>
  The two handles are either both \<^verbatim>\<open>null\<close>, with no timeline created so far, or both
  built, from one backdrop and one content, with two timelines created in all.
\<close>

definition handles_ok :: "mpage \<Rightarrow> bool" where
  "handles_ok s =
     (case openTL s of
        None \<Rightarrow> closeTL s = None \<and> timelines_created s = 0
      | Some tline \<Rightarrow>
          length tline = 2 \<and> closeTL s = Some (rev tline) \<and> timelines_created s = 2)"

text \<open>
  The cached timelines are current: their targets are the backdrop and the content
  that a query of the document returns now.
\<close>

definition current_handles :: "mpage \<Rightarrow> bool" where
  "current_handles s =
     (case openTL s of
        None \<Rightarrow> True
      | Some tline \<Rightarrow>
          (case targets_now (mdoc s) of
             None \<Rightarrow> False
           | Some p \<Rightarrow> tline = [fst p, snd p] \<and> closeTL s = Some [snd p, fst p]))"

text \<open>The page after \<^verbatim>\<open>initModal\<close> and the events \<open>evs\<close>.\<close>

definition reached :: "node \<Rightarrow> nat option \<Rightarrow> nat list \<Rightarrow> m_event list \<Rightarrow> mpage" where
  "reached d a fs evs = m_run (initModal d a fs) evs"

text \<open>On \<open>modal_page\<close> the open-button, the close button and the link can take the focus.\<close>

definition modal_state :: mpage where
  "modal_state = initModal modal_page None [1, 7, 9]"

text \<open>A page whose modal is made of other elements than that of \<open>modal_page\<close>.\<close>

definition modal_page2 :: node where
  "modal_page2 =
     Node (plain 0 ''body'' [] [])
       [Node (plain 1 ''button'' ''viewDetailsBtn'' [''btn'']) [Node (plain 2 ''span'' [] []) []],
        Node (plain 13 ''div'' ''detailsModal'' [''modal''])
          [Node (plain 14 ''div'' [] [''modal-backdrop'']) [],
           Node (plain 15 ''div'' [] [''modal-content''])
             [Node (plain 17 ''button'' [] [''modal-close-btn'']) []]]]"

text \<open>The page \<open>modal_page\<close> with a modal that has no backdrop.\<close>

definition no_backdrop_page :: node where
  "no_backdrop_page =
     Node (plain 0 ''body'' [] [])
       [Node (plain 1 ''button'' ''viewDetailsBtn'' [''btn'']) [Node (plain 2 ''span'' [] []) []],
        Node (plain 3 ''div'' ''detailsModal'' [''modal''])
          [Node (plain 5 ''div'' [] [''modal-content''])
             [Node (plain 6 ''h2'' [] []) [],
              Node (plain 7 ''button'' [] [''modal-close-btn'']) [Node (plain 8 ''span'' [] []) []],
              Node ((plain 9 ''a'' [] [])\<lparr>attrs := [(''href'', ''#'')]\<rparr>) []]]]"

text \<open>A page whose modal lies inside the element with the \<^verbatim>\<open>id\<close> of the open-button.\<close>

definition nested_page :: node where
  "nested_page =
     Node (plain 0 ''body'' [] [])
       [Node (plain 1 ''div'' ''viewDetailsBtn'' [''btn''])
          [Node (plain 2 ''span'' [] []) [],
           Node (plain 3 ''div'' ''detailsModal'' [''modal''])
             [Node (plain 4 ''div'' [] [''modal-backdrop''])
                [Node (plain 5 ''div'' [] [''modal-content''])
                   [Node (plain 7 ''button'' [] [''modal-close-btn'']) []]]]]]"

text \<open>
  The page \<open>modal_page\<close> after the host page has put a new backdrop element in the
  place of the old one; the modal element and the content are the same objects.
\<close>

definition new_backdrop_page :: node where
  "new_backdrop_page =
     Node (plain 0 ''body'' [] [])
       [Node (plain 1 ''button'' ''viewDetailsBtn'' [''btn'']) [Node (plain 2 ''span'' [] []) []],
        Node (plain 3 ''div'' ''detailsModal'' [''modal''])
          [Node (plain 24 ''div'' [] [''modal-backdrop''])
             [Node (plain 5 ''div'' [] [''modal-content''])
                [Node (plain 6 ''h2'' [] []) [],
                 Node (plain 7 ''button'' [] [''modal-close-btn'']) [Node (plain 8 ''span'' [] []) []],
                 Node ((plain 9 ''a'' [] [])\<lparr>attrs := [(''href'', ''#'')]\<rparr>) []]]]]"

text \<open>
  A page whose modal has, as its first link or control, a link without \<^verbatim>\<open>href\<close>, which
  cannot take the focus; the open-button and the close button can.
\<close>

definition dead_link_page :: node where
  "dead_link_page =
     Node (plain 0 ''body'' [] [])
       [Node (plain 1 ''button'' ''viewDetailsBtn'' [''btn'']) [],
        Node (plain 3 ''div'' ''detailsModal'' [''modal'', ''is-open''])
          [Node (plain 4 ''div'' [] [''modal-backdrop'']) [],
           Node (plain 5 ''div'' [] [''modal-content''])
             [Node (plain 6 ''a'' [] []) [],
              Node (plain 7 ''button'' [] [''modal-close-btn'']) []]]]"

definition dead_link_state :: mpage where
  "dead_link_state = initModal dead_link_page (Some 1) [1, 7]"

text \<open>Both handles are set.\<close>

definition built :: "mpage \<Rightarrow> bool" where
  "built s \<longleftrightarrow> openTL s \<noteq> None \<and> closeTL s \<noteq> None"

section \<open>Button micro-interactions (\<^verbatim>\<open>initButtonInteractions\<close>, script.js lines 225-237)\<close>

text \<open>
  Each element of class \<^verbatim>\<open>btn\<close> gets four listeners, and each listener starts one tween
  with \<^verbatim>\<open>gsap.to(btn, vars)\<close>. A tween started at time \<open>t\<close> with duration \<open>d\<close> writes the
  properties named in its \<open>vars\<close> at every frame until \<open>t + d\<close>, when it writes their
  end values and stops; tweens do not overwrite one another, and of two tweens writing
  in the same frame the one created later writes last. The value a property comes to
  rest at is therefore the end value of the tween, among those that name it, which
  ends last. Times are in milliseconds.
\<close>

datatype prop_value = Num real | Str string

record tween =
  vars :: "(string \<times> prop_value) list"
  ends :: nat

text \<open>
  A button: the values its properties have before any tween touched them, the tweens
  started on it (in order of creation), and the time.
\<close>

record button =
  props :: "(string \<times> prop_value) list"
  tweens :: "tween list"
  now :: nat

definition gsap_to :: "(string \<times> prop_value) list \<Rightarrow> nat \<Rightarrow> button \<Rightarrow> button" where
  "gsap_to vs d b = b\<lparr>tweens := tweens b @ [\<lparr>vars = vs, ends = now b + d\<rparr>]\<rparr>"

definition on_mouseenter :: "button \<Rightarrow> button" where
  "on_mouseenter b = gsap_to [(''y'', Num (- 4)), (''scale'', Num 1.01)] 180 b"

definition on_mouseleave :: "button \<Rightarrow> button" where
  "on_mouseleave b = gsap_to [(''y'', Num 0), (''scale'', Num 1)] 280 b"

definition on_focus :: "button \<Rightarrow> button" where
  "on_focus b = gsap_to [(''boxShadow'', Str ''0 10px 30px rgba(99,58,234,0.18)'')] 180 b"

definition on_blur :: "button \<Rightarrow> button" where
  "on_blur b = gsap_to [(''boxShadow'', Str ''none'')] 180 b"

datatype btn_event = MouseEnter | MouseLeave | Focus | Blur | Wait nat

fun btn_step :: "button \<Rightarrow> btn_event \<Rightarrow> button" where
  "btn_step b MouseEnter = on_mouseenter b"
| "btn_step b MouseLeave = on_mouseleave b"
| "btn_step b Focus = on_focus b"
| "btn_step b Blur = on_blur b"
| "btn_step b (Wait d) = b\<lparr>now := now b + d\<rparr>"

definition btn_run :: "button \<Rightarrow> btn_event list \<Rightarrow> button" where
  "btn_run b evs = foldl btn_step b evs"

text \<open>
  The last writer of property \<open>p\<close> among the tweens seen so far: the time it ends and
  the value it leaves.
\<close>

definition later :: "string \<Rightarrow> (nat \<times> prop_value) option \<Rightarrow> tween \<Rightarrow> (nat \<times> prop_value) option" where
  "later p best tw =
     (case map_of (vars tw) p of
        None \<Rightarrow> best
      | Some v \<Rightarrow>
          (case best of
             None \<Rightarrow> Some (ends tw, v)
           | Some (e, w) \<Rightarrow> if e \<le> ends tw then Some (ends tw, v) else best))"

definition last_writer :: "string \<Rightarrow> tween list \<Rightarrow> (nat \<times> prop_value) option" where
  "last_writer p tws = foldl (later p) None tws"

text \<open>The value property \<open>p\<close> has once every tween has ended.\<close>

definition rest_value :: "button \<Rightarrow> string \<Rightarrow> prop_value option" where
  "rest_value b p =
     (case last_writer p (tweens b) of
        None \<Rightarrow> map_of (props b) p
      | Some (e, v) \<Rightarrow> Some v)"

text \<open>A button on which no tween has run yet.\<close>

definition fresh_button :: "(string \<times> prop_value) list \<Rightarrow> button" where
  "fresh_button ps = \<lparr>props = ps, tweens = [], now = 0\<rparr>"

definition is_hover :: "btn_event \<Rightarrow> bool" where
  "is_hover e = (case e of MouseEnter \<Rightarrow> True | MouseLeave \<Rightarrow> True | _ \<Rightarrow> False)"

text \<open>No tween outlives the longest duration, 280 ms, counted from now.\<close>

definition bounded :: "button \<Rightarrow> bool" where
  "bounded b = list_all (\<lambda>tw. ends tw \<le> now b + 280) (tweens b)"

text \<open>
  \<^verbatim>\<open>initButtonInteractions\<close>: every element of class \<^verbatim>\<open>btn\<close> gets the four listeners;
  \<open>style\<close> gives the property values an element has when the page is set up. The
  listeners of a button are closed over that button and touch nothing else.
\<close>

definition initButtonInteractions ::
    "node \<Rightarrow> (nat \<Rightarrow> (string \<times> prop_value) list) \<Rightarrow> (nat \<times> button) list" where
  "initButtonInteractions d style =
     map (\<lambda>n. (nid (el n), fresh_button (style (nid (el n))))) (qsa d (ByClass ''btn''))"

text \<open>
  An event at element \<open>i\<close> reaches the listeners of that element only (\<^verbatim>\<open>mouseenter\<close>,
  \<^verbatim>\<open>mouseleave\<close>, \<^verbatim>\<open>focus\<close> and \<^verbatim>\<open>blur\<close> do not bubble); time passes for every button.
\<close>

definition affects :: "nat \<Rightarrow> nat \<times> btn_event \<Rightarrow> bool" where
  "affects i ev = (case snd ev of Wait d \<Rightarrow> True | _ \<Rightarrow> fst ev = i)"

definition page_step :: "(nat \<times> button) list \<Rightarrow> nat \<times> btn_event \<Rightarrow> (nat \<times> button) list" where
  "page_step pg ev = map (\<lambda>r. (fst r, if affects (fst r) ev then btn_step (snd r) (snd ev) else snd r)) pg"

definition page_run :: "(nat \<times> button) list \<Rightarrow> (nat \<times> btn_event) list \<Rightarrow> (nat \<times> button) list" where
  "page_run pg evs = foldl page_step pg evs"

text \<open>The events that reach the button \<open>i\<close>.\<close>

definition events_of :: "nat \<Rightarrow> (nat \<times> btn_event) list \<Rightarrow> btn_event list" where
  "events_of i evs = map snd (filter (affects i) evs)"

text \<open>A page with one button, and a style sheet that scales buttons to 1.05.\<close>

definition button_page :: node where
  "button_page =
     Node \<lparr>nid = 0, tag = ''body'', ident = [], classes = [], attrs = []\<rparr>
       [Node \<lparr>nid = 1, tag = ''a'', ident = ''viewDetailsBtn'', classes = [''btn''], attrs = []\<rparr> []]"

definition enlarged :: "nat \<Rightarrow> (string \<times> prop_value) list" where
  "enlarged i = [(''y'', Num 0), (''scale'', Num 1.05)]"

definition untouched :: "nat \<Rightarrow> (string \<times> prop_value) list" where
  "untouched i = [(''y'', Num 0), (''scale'', Num 1)]"

section \<open>Properties of the image-load wait\<close>

lemma deliver_settled: "settled w \<Longrightarrow> settled (deliver w e)"
  by (cases e) (auto simp: settled_def)

lemma run_settled: "settled w \<Longrightarrow> settled (run_waiter w evs)"
  unfolding run_waiter_def
  by (induction evs arbitrary: w) (simp_all add: deliver_settled)

lemma deliver_waiting:
  "waiting t w \<Longrightarrow> settled (deliver w e) \<or> waiting t (deliver w e)"
  by (cases e)
     (auto simp: waiting_def settled_def onLoad_def onError_def onTimer_def resolve_def
        cleanup_def Let_def)

lemma deliver_waiting_producer:
  "waiting t w \<Longrightarrow> is_producer e \<Longrightarrow> settled (deliver w e)"
  by (cases e)
     (auto simp: waiting_def settled_def onLoad_def onError_def resolve_def cleanup_def
        is_producer_def)

lemma run_waiting:
  "settled w \<or> waiting t w \<Longrightarrow> settled (run_waiter w evs) \<or> waiting t (run_waiter w evs)"
proof (induction evs arbitrary: w)
  case Nil
  then show ?case by (simp add: run_waiter_def)
next
  case (Cons e evs)
  have "settled (deliver w e) \<or> waiting t (deliver w e)"
    using Cons.prems deliver_settled deliver_waiting by blast
  from Cons.IH [OF this] show ?case by (simp add: run_waiter_def)
qed

lemma run_waiting_producer:
  "settled w \<or> waiting t w \<Longrightarrow> \<exists>e \<in> set evs. is_producer e \<Longrightarrow> settled (run_waiter w evs)"
proof (induction evs arbitrary: w)
  case Nil
  then show ?case by simp
next
  case (Cons e evs)
  have step: "settled (deliver w e) \<or> waiting t (deliver w e)"
    using Cons.prems(1) deliver_settled deliver_waiting by blast
  show ?case
  proof (cases "is_producer e")
    case True
    then have "settled (deliver w e)"
      using Cons.prems(1) deliver_settled deliver_waiting_producer by blast
    then have "settled (run_waiter (deliver w e) evs)" by (rule run_settled)
    then show ?thesis by (simp add: run_waiter_def)
  next
    case False
    then have "\<exists>e \<in> set evs. is_producer e" using Cons.prems(2) by auto
    from Cons.IH [OF step this] show ?thesis by (simp add: run_waiter_def)
  qed
qed

lemma deliver_clock: "clock (deliver w e) = clock w + (case e of Elapse d \<Rightarrow> d | _ \<Rightarrow> 0)"
  by (cases e)
     (auto simp: onLoad_def onError_def onTimer_def resolve_def cleanup_def Let_def
        split: option.splits)

lemma start_state:
  "settled (waitForImageLoad img timeout) \<or> waiting (the_timeout timeout) (waitForImageLoad img timeout)"
  by (auto simp: waitForImageLoad_def the_timeout_def settled_def waiting_def resolve_def
        blank_waiter_def Let_def split: option.splits)

lemma start_clock: "clock (waitForImageLoad img timeout) = 0"
  by (auto simp: waitForImageLoad_def resolve_def blank_waiter_def Let_def split: option.splits)

text \<open>
  C1. For every image (or none), every timeout and every interleaving of \<^verbatim>\<open>load\<close> events,
  \<^verbatim>\<open>error\<close> events and passing time, \<^verbatim>\<open>resolve\<close> is invoked at most once; it has been
  invoked exactly once as soon as a \<^verbatim>\<open>load\<close> or an \<^verbatim>\<open>error\<close> was dispatched, and in any
  case once the clock has passed the timeout (1800 ms when the argument is omitted):
  the promise never resolves twice and never stays pending past the timeout.
\<close>

theorem waitForImageLoad_resolves_once:
  "resolves (run_waiter (waitForImageLoad img timeout) evs) \<le> 1 \<and>
   ((\<exists>e \<in> set evs. is_producer e) \<longrightarrow>
      resolves (run_waiter (waitForImageLoad img timeout) evs) = 1) \<and>
   (the_timeout timeout < clock (run_waiter (waitForImageLoad img timeout) evs) \<longrightarrow>
      resolves (run_waiter (waitForImageLoad img timeout) evs) = 1) \<and>
   the_timeout None = 1800"
proof -
  let ?w = "run_waiter (waitForImageLoad img timeout) evs"
  have inv: "settled ?w \<or> waiting (the_timeout timeout) ?w"
    using run_waiting [OF start_state] .
  then have "resolves ?w \<le> 1"
    by (auto simp: settled_def waiting_def)
  moreover have "(\<exists>e \<in> set evs. is_producer e) \<longrightarrow> resolves ?w = 1"
    using run_waiting_producer [OF start_state] by (auto simp: settled_def)
  moreover have "the_timeout timeout < clock ?w \<longrightarrow> resolves ?w = 1"
    using inv by (auto simp: settled_def waiting_def)
  moreover have "the_timeout None = 1800"
    by (simp add: the_timeout_def default_timeout_def)
  ultimately show ?thesis by blast
qed

theorem waitForImageLoad_resolves_once_witness:
  "(\<exists>e \<in> set [Elapse 1000, ImgError, Elapse 900, ImgLoad]. is_producer e) \<and>
   the_timeout None < clock (run_waiter (waitForImageLoad (Some \<lparr>complete = False, naturalWidth = 0\<rparr>) None)
      [Elapse 1000, ImgError, Elapse 900, ImgLoad]) \<and>
   resolves (run_waiter (waitForImageLoad (Some \<lparr>complete = False, naturalWidth = 0\<rparr>) None)
      [Elapse 1000, ImgError, Elapse 900, ImgLoad]) = 1"
proof -
  have p: "\<exists>e \<in> set [Elapse 1000, ImgError, Elapse 900, ImgLoad]. is_producer e"
    by (simp add: is_producer_def)
  have c: "clock (run_waiter (waitForImageLoad (Some \<lparr>complete = False, naturalWidth = 0\<rparr>) None)
      [Elapse 1000, ImgError, Elapse 900, ImgLoad]) = 1900"
    by (simp add: run_waiter_def deliver_clock start_clock del: deliver.simps)
  have t: "the_timeout None = 1800"
    by (simp add: the_timeout_def default_timeout_def)
  show ?thesis
    using waitForImageLoad_resolves_once
      [of "Some \<lparr>complete = False, naturalWidth = 0\<rparr>" None "[Elapse 1000, ImgError, Elapse 900, ImgLoad]"]
      p c t by simp
qed

text \<open>
  C10. The two fast paths: with no image, or with an image that is already complete
  and has a nonzero natural width, \<^verbatim>\<open>resolve\<close> has been invoked once when the executor
  returns (at time 0), no listener is attached and no timer is pending; whatever
  happens later leaves the count at one.
\<close>

theorem waitForImageLoad_fast_paths:
  "img = None \<or> (\<exists>i. img = Some i \<and> complete i \<and> naturalWidth i \<noteq> 0) \<Longrightarrow>
   resolves (waitForImageLoad img timeout) = 1 \<and>
   \<not> load_listener (waitForImageLoad img timeout) \<and>
   \<not> error_listener (waitForImageLoad img timeout) \<and>
   timer (waitForImageLoad img timeout) = None \<and>
   clock (waitForImageLoad img timeout) = 0 \<and>
   (\<forall>evs. resolves (run_waiter (waitForImageLoad img timeout) evs) = 1)"
proof -
  assume fast: "img = None \<or> (\<exists>i. img = Some i \<and> complete i \<and> naturalWidth i \<noteq> 0)"
  then have s: "settled (waitForImageLoad img timeout)"
    by (auto simp: waitForImageLoad_def settled_def resolve_def blank_waiter_def Let_def)
  have "\<forall>evs. resolves (run_waiter (waitForImageLoad img timeout) evs) = 1"
    using run_settled [OF s] by (simp add: settled_def)
  then show ?thesis using s start_clock [of img timeout] by (simp add: settled_def)
qed

theorem waitForImageLoad_fast_paths_witness:
  "resolves (waitForImageLoad None (Some 5)) = 1 \<and>
   timer (waitForImageLoad None (Some 5)) = None \<and>
   complete \<lparr>complete = True, naturalWidth = 640\<rparr> \<and>
   naturalWidth \<lparr>complete = True, naturalWidth = 640\<rparr> \<noteq> 0 \<and>
   resolves (waitForImageLoad (Some \<lparr>complete = True, naturalWidth = 640\<rparr>) None) = 1 \<and>
   \<not> load_listener (waitForImageLoad (Some \<lparr>complete = True, naturalWidth = 640\<rparr>) None) \<and>
   timer (waitForImageLoad (Some \<lparr>complete = True, naturalWidth = 640\<rparr>) None) = None \<and>
   resolves (run_waiter (waitForImageLoad (Some \<lparr>complete = True, naturalWidth = 640\<rparr>) None)
      [ImgLoad, Elapse 2000]) = 1"
  using waitForImageLoad_fast_paths [of None "Some 5"]
    waitForImageLoad_fast_paths [of "Some \<lparr>complete = True, naturalWidth = 640\<rparr>" None]
  by simp

section \<open>Properties of the lightbox\<close>

lemma count_concat:
  "length (filter P (concat xss)) = sum_list (map (\<lambda>xs. length (filter P xs)) xss)"
  by (induction xss) auto

lemma el_removeChild: "el (removeChild p c n) = el n"
  by (cases n) simp

lemma count_removeChild:
  "length (filter (\<lambda>n. Q (el n)) (flat (removeChild p c n))) \<le> length (filter (\<lambda>n. Q (el n)) (flat n))"
proof (induction n)
  case (Node e ks)
  let ?cnt = "\<lambda>k. length (filter (\<lambda>n. Q (el n)) (flat k))"
  let ?rc = "removeChild p c"
  have mono: "sum_list (map ?cnt (map ?rc ks)) \<le> sum_list (map ?cnt ks)"
    unfolding map_map comp_def using Node.IH by (intro sum_list_mono) simp
  have filt: "sum_list (map ?cnt (filter (\<lambda>k. nid (el k) \<noteq> c) (map ?rc ks)))
      \<le> sum_list (map ?cnt (map ?rc ks))"
    by (rule sum_list_filter_le_nat)
  show ?case
  proof (cases "nid e = p")
    case True
    then show ?thesis using mono filt by (simp add: count_concat comp_def)
  next
    case False
    then show ?thesis using mono by (simp add: count_concat comp_def)
  qed
qed

lemma overlays_removeChild: "overlays (removeChild p c d) \<le> overlays d"
  unfolding overlays_def qsa_def by (rule count_removeChild)

lemma qsa_body_appendChild:
  "length (qsa (body_appendChild c d) sel) =
     length (qsa d sel) + length (filter (\<lambda>n. matches sel (el n)) (flat c))"
  by (cases d) (simp add: qsa_def body_appendChild_def)

lemma qs_None_iff: "qs d sel = None \<longleftrightarrow> qsa d sel = []"
  by (simp add: qs_def first_of_def split: list.splits)

lemma overlays_openLightbox_new:
  "qs (ldoc s) (ByClass ''tric-lightbox'') = None \<Longrightarrow> overlays (ldoc (openLightbox p s)) = Suc 0"
  by (simp add: openLightbox_def Let_def overlays_def qsa_body_appendChild
      lightbox_tree_def new_div_def new_img_def qs_None_iff)

lemma openLightbox_guard:
  "qs (ldoc s) (ByClass ''tric-lightbox'') \<noteq> None \<Longrightarrow> openLightbox p s = s"
  by (simp add: openLightbox_def)

lemma overlays_openLightbox_le: "overlays (ldoc s) \<le> Suc 0 \<Longrightarrow> overlays (ldoc (openLightbox p s)) \<le> Suc 0"
  by (cases "qs (ldoc s) (ByClass ''tric-lightbox'') = None")
     (simp_all add: overlays_openLightbox_new openLightbox_guard)

lemma overlays_closeLightbox: "ldoc (closeLightbox c s) = ldoc s"
  by (simp add: closeLightbox_def)

lemma overlays_out_onComplete: "overlays (ldoc (out_onComplete c s)) \<le> overlays (ldoc s)"
  by (simp add: out_onComplete_def overlays_removeChild split: option.splits)

lemma overlays_run_listener:
  "overlays (ldoc s) \<le> Suc 0 \<Longrightarrow> overlays (ldoc (run_listener s h)) \<le> Suc 0"
  by (cases h) (simp_all add: run_listener_def overlays_openLightbox_le overlays_closeLightbox)

lemma overlays_dispatch_list:
  "overlays (ldoc s) \<le> Suc 0 \<Longrightarrow> overlays (ldoc (foldl run_listener s hs)) \<le> Suc 0"
  by (induction hs arbitrary: s) (simp_all add: overlays_run_listener)

lemma overlays_dispatch_at:
  "overlays (ldoc s) \<le> Suc 0 \<Longrightarrow> overlays (ldoc (dispatch_at s i)) \<le> Suc 0"
  by (simp add: dispatch_at_def overlays_dispatch_list)

lemma overlays_bubble:
  "overlays (ldoc s) \<le> Suc 0 \<Longrightarrow> overlays (ldoc (foldl dispatch_at s is)) \<le> Suc 0"
  by (induction "is" arbitrary: s) (simp_all add: overlays_dispatch_at)

lemma overlays_lb_click: "overlays (ldoc s) \<le> Suc 0 \<Longrightarrow> overlays (ldoc (lb_click i s)) \<le> Suc 0"
  by (simp add: lb_click_def overlays_bubble)

lemma ldoc_escClose_list: "ldoc (foldl (escClose k) s cs) = ldoc s"
  by (induction cs arbitrary: s) (simp_all add: escClose_def closeLightbox_def)

lemma ldoc_lb_keydown: "ldoc (lb_keydown k s) = ldoc s"
  by (simp add: lb_keydown_def ldoc_escClose_list)

lemma overlays_lb_out_complete:
  "overlays (ldoc (lb_out_complete s)) \<le> overlays (ldoc s)"
proof (cases "out_timelines s")
  case Nil
  then show ?thesis by (simp add: lb_out_complete_def)
next
  case (Cons c r)
  have "overlays (ldoc (out_onComplete c (s\<lparr>out_timelines := r\<rparr>)))
      \<le> overlays (ldoc (s\<lparr>out_timelines := r\<rparr>))"
    by (rule overlays_out_onComplete)
  then show ?thesis using Cons by (simp add: lb_out_complete_def)
qed

lemma overlays_lb_step: "overlays (ldoc s) \<le> Suc 0 \<Longrightarrow> overlays (ldoc (lb_step s e)) \<le> Suc 0"
proof (cases e)
  case (LbClick i)
  assume "overlays (ldoc s) \<le> Suc 0"
  then show ?thesis using LbClick by (simp add: overlays_lb_click)
next
  case (LbKeyDown k)
  assume "overlays (ldoc s) \<le> Suc 0"
  then show ?thesis using LbKeyDown by (simp add: ldoc_lb_keydown)
next
  case LbOutComplete
  assume "overlays (ldoc s) \<le> Suc 0"
  then show ?thesis
    using LbOutComplete overlays_lb_out_complete [of s] by simp
qed

lemma overlays_lb_run: "overlays (ldoc s) \<le> Suc 0 \<Longrightarrow> overlays (ldoc (lb_run s evs)) \<le> Suc 0"
  unfolding lb_run_def
  by (induction evs arbitrary: s) (simp_all add: overlays_lb_step)

lemma kids_openLightbox_new:
  "qs (ldoc s) (ByClass ''tric-lightbox'') = None \<Longrightarrow>
   \<exists>n. kids (ldoc (openLightbox p s)) = kids (ldoc s) @ [n] \<and>
       classes (el n) = [''tric-lightbox''] \<and> nid (el n) = fresh s"
  by (simp add: openLightbox_def Let_def body_appendChild_def lightbox_tree_def new_div_def)

text \<open>
  C2. When the document holds no element of class \<^verbatim>\<open>tric-lightbox\<close>, \<^verbatim>\<open>openLightbox\<close>
  appends exactly one node to the body, an overlay, and the document then holds one
  overlay; when the document holds such an element, \<^verbatim>\<open>openLightbox\<close> changes nothing.
  Hence a page with at most one overlay keeps at most one, whatever clicks, key presses
  and animation completions follow.
\<close>

theorem openLightbox_single_overlay:
  "(qs (ldoc s) (ByClass ''tric-lightbox'') = None \<longrightarrow>
      overlays (ldoc s) = 0 \<and>
      (\<exists>n. kids (ldoc (openLightbox p s)) = kids (ldoc s) @ [n] \<and>
           classes (el n) = [''tric-lightbox'']) \<and>
      overlays (ldoc (openLightbox p s)) = 1) \<and>
   (qs (ldoc s) (ByClass ''tric-lightbox'') \<noteq> None \<longrightarrow> openLightbox p s = s) \<and>
   (overlays (ldoc s) \<le> 1 \<longrightarrow> overlays (ldoc (lb_run s evs)) \<le> 1)"
proof -
  have "qs (ldoc s) (ByClass ''tric-lightbox'') = None \<longrightarrow> overlays (ldoc s) = 0"
    by (simp add: overlays_def qs_None_iff)
  moreover have "qs (ldoc s) (ByClass ''tric-lightbox'') = None \<longrightarrow>
      (\<exists>n. kids (ldoc (openLightbox p s)) = kids (ldoc s) @ [n] \<and>
           classes (el n) = [''tric-lightbox''])"
    using kids_openLightbox_new [of s p] by blast
  ultimately show ?thesis
    using overlays_openLightbox_new [of s p] openLightbox_guard [of s p] overlays_lb_run [of s evs]
    by simp
qed

theorem openLightbox_single_overlay_witness:
  "qs (ldoc poster_state) (ByClass ''tric-lightbox'') = None \<and>
   overlays (ldoc (openLightbox poster_el poster_state)) = 1 \<and>
   qs (ldoc (openLightbox poster_el poster_state)) (ByClass ''tric-lightbox'') \<noteq> None \<and>
   openLightbox poster_el (openLightbox poster_el poster_state) = openLightbox poster_el poster_state \<and>
   overlays (ldoc poster_state) \<le> 1 \<and>
   overlays (ldoc (lb_run poster_state [LbClick 2, LbClick 1, LbClick 4, LbClick 2, LbOutComplete, LbClick 2])) \<le> 1"
proof -
  have h1: "qs (ldoc poster_state) (ByClass ''tric-lightbox'') = None"
    by code_simp
  have h2: "qs (ldoc (openLightbox poster_el poster_state)) (ByClass ''tric-lightbox'') \<noteq> None"
    by code_simp
  have h3: "overlays (ldoc poster_state) \<le> 1"
    by code_simp
  show ?thesis
    using h1 h2 h3
      openLightbox_single_overlay [of poster_state poster_el
        "[LbClick 2, LbClick 1, LbClick 4, LbClick 2, LbOutComplete, LbClick 2]"]
      openLightbox_single_overlay [of "openLightbox poster_el poster_state" poster_el "[]"]
    by blast
qed

subsection \<open>Closing the lightbox\<close>

lemma ids_Node: "ids (Node e ks) = nid e # concat (map ids ks)"
  by (simp add: ids_def [abs_def] map_concat comp_def)

lemma first_path_empty: "\<forall>p \<in> set ps. p = [] \<Longrightarrow> first_path ps = []"
  by (induction ps rule: first_path.induct) simp_all

lemma first_path_skip: "\<forall>p \<in> set ps. p = [] \<Longrightarrow> first_path (ps @ rest) = first_path rest"
  by (induction ps rule: first_path.induct) simp_all

lemma path_to_absent: "i \<notin> set (ids n) \<Longrightarrow> path_to i n = []"
proof (induction n)
  case (Node e ks)
  have "\<forall>p \<in> set (map (path_to i) ks). p = []"
    using Node by (auto simp: ids_Node)
  then have "first_path (map (path_to i) ks) = []"
    by (rule first_path_empty)
  then show ?case using Node.prems by (simp add: ids_Node)
qed

lemma removeChild_absent: "c \<notin> set (ids n) \<Longrightarrow> removeChild p c n = n"
proof (induction n)
  case (Node e ks)
  have kid: "removeChild p c k = k \<and> nid (el k) \<noteq> c" if "k \<in> set ks" for k
  proof -
    have "c \<notin> set (ids k)" using Node.prems that by (auto simp: ids_Node)
    moreover have "nid (el k) \<in> set (ids k)" by (cases k) (simp add: ids_Node)
    ultimately show ?thesis using Node.IH [OF that] by auto
  qed
  then have "map (removeChild p c) ks = ks"
    by (simp add: map_idI)
  moreover have "filter (\<lambda>k. nid (el k) \<noteq> c) ks = ks"
    using kid by (simp add: filter_id_conv)
  ultimately show ?case by simp
qed

lemma path_to_appended:
  assumes "i \<notin> set (ids d)" and "path_to i t = p # ps"
  shows "path_to i (body_appendChild t d) = el d # p # ps"
proof (cases d)
  case (Node e ks)
  have "\<forall>q \<in> set (map (path_to i) ks). q = []"
    using assms(1) Node by (auto simp: ids_Node intro: path_to_absent)
  then have "first_path (map (path_to i) ks @ [path_to i t]) = first_path [path_to i t]"
    by (rule first_path_skip)
  then show ?thesis
    using assms Node by (simp add: body_appendChild_def ids_Node)
qed

lemma removeChild_appended:
  assumes "c \<notin> set (ids d)" and "nid (el t) = c"
  shows "removeChild (nid (el d)) c (body_appendChild t d) = d"
proof (cases d)
  case (Node e ks)
  have kid: "removeChild (nid e) c k = k \<and> nid (el k) \<noteq> c" if "k \<in> set ks" for k
  proof -
    have "c \<notin> set (ids k)" using assms(1) Node that by (auto simp: ids_Node)
    moreover have "nid (el k) \<in> set (ids k)" by (cases k) (simp add: ids_Node)
    ultimately show ?thesis using removeChild_absent [of c k "nid e"] by auto
  qed
  then have "map (removeChild (nid e) c) ks = ks"
    by (simp add: map_idI)
  moreover have "filter (\<lambda>k. nid (el k) \<noteq> c) ks = ks"
    using kid by (simp add: filter_id_conv)
  moreover have "nid (el (removeChild (nid e) c t)) = c"
    using assms(2) by (simp add: el_removeChild)
  ultimately show ?thesis
    using Node by (simp add: body_appendChild_def)
qed

lemma openLightbox_new:
  assumes "qs (ldoc s) (ByClass ''tric-lightbox'') = None"
  shows "\<exists>src alt. ldoc (openLightbox p s) = body_appendChild (lightbox_tree (opened s) src alt) (ldoc s)"
    and "click_listeners (openLightbox p s)
           = click_listeners s @ [(fresh s + 1, OnClose (opened s)), (fresh s + 3, OnClose (opened s))]"
    and "keydown_once (openLightbox p s) = keydown_once s @ [opened s]"
    and "out_timelines (openLightbox p s) = out_timelines s"
  using assms by (auto simp: openLightbox_def Let_def opened_def)

lemma path_in_lightbox_tree:
  "path_to (lb c) (lightbox_tree c src alt) = [new_div (lb c) ''tric-lightbox'']"
  "lb_backdrop c \<noteq> lb c \<Longrightarrow>
   path_to (lb_backdrop c) (lightbox_tree c src alt)
     = [new_div (lb c) ''tric-lightbox'', new_div (lb_backdrop c) ''tric-lightbox-backdrop'']"
  "lb_img c \<noteq> lb c \<Longrightarrow> lb_img c \<noteq> lb_backdrop c \<Longrightarrow> lb_img c \<noteq> lb_imgWrap c \<Longrightarrow>
   path_to (lb_img c) (lightbox_tree c src alt)
     = [new_div (lb c) ''tric-lightbox'', new_div (lb_imgWrap c) ''tric-lightbox-wrap'',
        new_img (lb_img c) src alt]"
  by (simp_all add: lightbox_tree_def new_div_def new_img_def)

lemma fresh_absent: "allocated s \<Longrightarrow> fresh s + k \<notin> set (ids (ldoc s))"
  by (auto simp: allocated_def list_all_iff)

lemma out_onComplete_absent: "lb c \<notin> set (ids (ldoc s)) \<Longrightarrow> out_onComplete c s = s"
  by (simp add: out_onComplete_def parentNode_def path_to_absent)

lemma out_onComplete_opened:
  assumes "allocated s" and "qs (ldoc s) (ByClass ''tric-lightbox'') = None"
    and "ldoc s' = ldoc (openLightbox p s)"
  shows "ldoc (out_onComplete (opened s) s') = ldoc s"
proof -
  obtain src alt where doc: "ldoc s' = body_appendChild (lightbox_tree (opened s) src alt) (ldoc s)"
    using openLightbox_new(1) [OF assms(2), of p] assms(3) by auto
  have absent: "fresh s \<notin> set (ids (ldoc s))"
    using fresh_absent [OF assms(1), of 0] by simp
  have "path_to (fresh s) (lightbox_tree (opened s) src alt) = [new_div (fresh s) ''tric-lightbox'']"
    using path_in_lightbox_tree(1) [of "opened s" src alt] by (simp add: opened_def)
  from path_to_appended [OF absent this]
  have "parentNode (ldoc s') (fresh s) = Some (el (ldoc s))"
    by (simp add: parentNode_def doc)
  moreover have "removeChild (nid (el (ldoc s))) (fresh s) (ldoc s') = ldoc s"
    unfolding doc by (rule removeChild_appended [OF absent]) (simp add: lightbox_tree_def new_div_def opened_def)
  ultimately show ?thesis
    by (simp add: out_onComplete_def opened_def)
qed

lemma out_mono_listener:
  "c \<in> set (out_timelines s) \<Longrightarrow> c \<in> set (out_timelines (run_listener s h))"
  by (cases h) (simp_all add: run_listener_def closeLightbox_def openLightbox_def Let_def)

lemma out_mono_listeners:
  "c \<in> set (out_timelines s) \<Longrightarrow> c \<in> set (out_timelines (foldl run_listener s hs))"
  by (induction hs arbitrary: s) (simp_all add: out_mono_listener)

lemma out_mono_bubble:
  "c \<in> set (out_timelines s) \<Longrightarrow> c \<in> set (out_timelines (foldl dispatch_at s js))"
  by (induction js arbitrary: s) (simp_all add: dispatch_at_def out_mono_listeners)

lemma listeners_on_new:
  assumes "allocated s" and "qs (ldoc s) (ByClass ''tric-lightbox'') = None"
  shows "listeners_on (openLightbox p s) (fresh s + 1) = [OnClose (opened s)]"
    and "listeners_on (openLightbox p s) (fresh s + 3) = [OnClose (opened s)]"
proof -
  have old: "filter (\<lambda>r. fst r = fresh s + k) (click_listeners s) = []" for k
    using assms(1) by (auto simp: allocated_def list_all_iff filter_empty_conv)
  show "listeners_on (openLightbox p s) (fresh s + 1) = [OnClose (opened s)]"
    using old [of 1] by (simp add: listeners_on_def openLightbox_new(2) [OF assms(2)])
  show "listeners_on (openLightbox p s) (fresh s + 3) = [OnClose (opened s)]"
    using old [of 3] by (simp add: listeners_on_def openLightbox_new(2) [OF assms(2)])
qed

lemma click_closes:
  assumes "allocated s" and "qs (ldoc s) (ByClass ''tric-lightbox'') = None"
  shows "opened s \<in> set (out_timelines (lb_click (fresh s + 1) (openLightbox p s)))"
    and "opened s \<in> set (out_timelines (lb_click (fresh s + 3) (openLightbox p s)))"
proof -
  let ?s1 = "openLightbox p s"
  obtain src alt where doc: "ldoc ?s1 = body_appendChild (lightbox_tree (opened s) src alt) (ldoc s)"
    using openLightbox_new(1) [OF assms(2), of p] by auto
  have b: "path_to (fresh s + 1) (lightbox_tree (opened s) src alt)
      = [new_div (fresh s) ''tric-lightbox'', new_div (fresh s + 1) ''tric-lightbox-backdrop'']"
    using path_in_lightbox_tree(2) [of "opened s" src alt] by (simp add: opened_def)
  have i: "path_to (fresh s + 3) (lightbox_tree (opened s) src alt)
      = [new_div (fresh s) ''tric-lightbox'', new_div (fresh s + 2) ''tric-lightbox-wrap'',
         new_img (fresh s + 3) src alt]"
    using path_in_lightbox_tree(3) [of "opened s" src alt] by (simp add: opened_def)
  have first: "opened s \<in> set (out_timelines (dispatch_at ?s1 (fresh s + k)))" if "k = 1 \<or> k = 3" for k
    using that listeners_on_new [OF assms, of p]
    by (auto simp: dispatch_at_def run_listener_def closeLightbox_def)
  have "lb_click (fresh s + 1) ?s1
      = foldl dispatch_at (dispatch_at ?s1 (fresh s + 1)) [fresh s, nid (el (ldoc s))]"
    using path_to_appended [OF fresh_absent [OF assms(1), of 1] b]
    by (simp add: lb_click_def doc new_div_def)
  then show "opened s \<in> set (out_timelines (lb_click (fresh s + 1) ?s1))"
    using out_mono_bubble [OF first [of 1], of "[fresh s, nid (el (ldoc s))]"] by simp
  have "lb_click (fresh s + 3) ?s1
      = foldl dispatch_at (dispatch_at ?s1 (fresh s + 3)) [fresh s + 2, fresh s, nid (el (ldoc s))]"
    using path_to_appended [OF fresh_absent [OF assms(1), of 3] i]
    by (simp add: lb_click_def doc new_div_def new_img_def)
  then show "opened s \<in> set (out_timelines (lb_click (fresh s + 3) ?s1))"
    using out_mono_bubble [OF first [of 3], of "[fresh s + 2, fresh s, nid (el (ldoc s))]"] by simp
qed

lemma escClose_list:
  "out_timelines (foldl (escClose k) s cs) = out_timelines s @ (if k = ''Escape'' then cs else [])"
  by (induction cs arbitrary: s) (simp_all add: escClose_def closeLightbox_def)

lemma escape_closes:
  assumes "qs (ldoc s) (ByClass ''tric-lightbox'') = None"
  shows "opened s \<in> set (out_timelines (lb_keydown ''Escape'' (openLightbox p s)))"
  by (simp add: lb_keydown_def escClose_list openLightbox_new [OF assms] del: foldl_append)

lemma escape_used_up:
  assumes "k \<noteq> ''Escape''"
  shows "lb_keydown ''Escape'' (lb_keydown k s) = lb_keydown k s"
    and "out_timelines (lb_keydown k s) = out_timelines s"
    and "ldoc (lb_keydown k s) = ldoc s"
proof -
  have none: "foldl (escClose k) t cs = t" for t cs
    using assms by (induction cs arbitrary: t) (simp_all add: escClose_def)
  show "lb_keydown ''Escape'' (lb_keydown k s) = lb_keydown k s"
    by (simp add: lb_keydown_def none)
  show "out_timelines (lb_keydown k s) = out_timelines s"
    by (simp add: lb_keydown_def none)
  show "ldoc (lb_keydown k s) = ldoc s"
    by (simp add: lb_keydown_def none)
qed


text \<open>Every identity in use stays below \<open>fresh\<close>, whatever happens to the page.\<close>

lemma ids_removeChild: "set (ids (removeChild p c n)) \<subseteq> set (ids n)"
proof (induction n)
  case (Node e ks)
  have "set (concat (map ids (map (removeChild p c) ks))) \<subseteq> set (concat (map ids ks))"
    using Node.IH by auto
  moreover have "set (concat (map ids (filter (\<lambda>k. nid (el k) \<noteq> c) (map (removeChild p c) ks))))
      \<subseteq> set (concat (map ids (map (removeChild p c) ks)))"
    by auto
  ultimately show ?case by (auto simp: ids_Node)
qed

lemma ids_body_appendChild: "ids (body_appendChild t d) = ids d @ ids t"
  by (cases d) (simp add: body_appendChild_def ids_Node)

lemma ids_lightbox_tree:
  "ids (lightbox_tree c src alt) = [lb c, lb_backdrop c, lb_imgWrap c, lb_img c]"
  by (simp add: lightbox_tree_def ids_Node new_div_def new_img_def)

lemma allocated_openLightbox: "allocated s \<Longrightarrow> allocated (openLightbox p s)"
  by (auto simp: allocated_def openLightbox_def Let_def ids_body_appendChild ids_lightbox_tree
      list_all_iff)

lemma allocated_out_onComplete: "allocated s \<Longrightarrow> allocated (out_onComplete c s)"
proof (cases "parentNode (ldoc s) (lb c)")
  case None
  assume "allocated s"
  then show ?thesis using None by (simp add: out_onComplete_def)
next
  case (Some x)
  assume a: "allocated s"
  have "set (ids (removeChild (nid x) (lb c) (ldoc s))) \<subseteq> set (ids (ldoc s))"
    by (rule ids_removeChild)
  then show ?thesis
    using a Some by (auto simp: allocated_def out_onComplete_def list_all_iff)
qed

lemma allocated_run_listener: "allocated s \<Longrightarrow> allocated (run_listener s h)"
proof (cases h)
  case (OnPosterClick p)
  assume "allocated s"
  then show ?thesis using OnPosterClick by (simp add: run_listener_def allocated_openLightbox)
next
  case (OnClose c)
  assume "allocated s"
  then show ?thesis using OnClose by (simp add: run_listener_def closeLightbox_def allocated_def)
qed

lemma allocated_listeners: "allocated s \<Longrightarrow> allocated (foldl run_listener s hs)"
  by (induction hs arbitrary: s) (simp_all add: allocated_run_listener)

lemma allocated_bubble: "allocated s \<Longrightarrow> allocated (foldl dispatch_at s js)"
  by (induction js arbitrary: s) (simp_all add: dispatch_at_def allocated_listeners)

lemma allocated_escClose: "allocated s \<Longrightarrow> allocated (foldl (escClose k) s cs)"
  by (induction cs arbitrary: s) (simp_all add: escClose_def closeLightbox_def allocated_def)

lemma allocated_step: "allocated s \<Longrightarrow> allocated (lb_step s e)"
proof (cases e)
  case (LbClick i)
  assume "allocated s"
  then show ?thesis using LbClick by (simp add: lb_click_def allocated_bubble)
next
  case (LbKeyDown k)
  assume "allocated s"
  then have "allocated (s\<lparr>keydown_once := []\<rparr>)" by (simp add: allocated_def)
  then show ?thesis using LbKeyDown by (simp add: lb_keydown_def allocated_escClose)
next
  case LbOutComplete
  assume a: "allocated s"
  show ?thesis
  proof (cases "out_timelines s")
    case Nil
    then show ?thesis using a LbOutComplete by (simp add: lb_out_complete_def)
  next
    case (Cons c r)
    have "allocated (s\<lparr>out_timelines := r\<rparr>)" using a by (simp add: allocated_def)
    then show ?thesis
      using LbOutComplete Cons by (simp add: lb_out_complete_def allocated_out_onComplete)
  qed
qed

lemma allocated_run: "allocated s \<Longrightarrow> allocated (lb_run s evs)"
  unfolding lb_run_def by (induction evs arbitrary: s) (simp_all add: allocated_step)

lemma allocated_init:
  "list_all (\<lambda>j. j < i) (ids d) \<Longrightarrow> allocated (initPosterClickToEnlarge d i r)"
proof -
  assume below: "list_all (\<lambda>j. j < i) (ids d)"
  have "nid (el w) < i" if "qs d sel = Some w" for sel w
  proof -
    have "w \<in> set (qsa d sel)"
      using that by (auto simp: qs_def first_of_def split: list.splits)
    then have "w \<in> set (flat d)"
      by (simp add: qsa_def)
    then show ?thesis using below by (auto simp: ids_def list_all_iff)
  qed
  then show ?thesis
    using below by (auto simp: allocated_def initPosterClickToEnlarge_def Let_def split: option.splits)
qed

text \<open>
  Closing, on every page the controller can reach. A lightbox that was just opened is
  closed by a click on its backdrop, by a click on its image and by a first key press
  that is Escape, each through \<^verbatim>\<open>closeLightbox\<close> of that lightbox; when the closing timeline
  completes, the document is what it was before the lightbox was opened, with no
  overlay in it; and a second completion finds the overlay gone and does nothing.
\<close>

lemma lightbox_closes:
  assumes "allocated s" and "qs (ldoc s) (ByClass ''tric-lightbox'') = None"
    and "ldoc s' = ldoc (openLightbox p s)"
  shows "opened s \<in> set (out_timelines (lb_click (lb_backdrop (opened s)) (openLightbox p s)))"
    and "opened s \<in> set (out_timelines (lb_click (lb_img (opened s)) (openLightbox p s)))"
    and "opened s \<in> set (out_timelines (lb_keydown ''Escape'' (openLightbox p s)))"
    and "ldoc (out_onComplete (opened s) s') = ldoc s"
    and "overlays (ldoc (out_onComplete (opened s) s')) = 0"
    and "out_onComplete (opened s) (out_onComplete (opened s) s') = out_onComplete (opened s) s'"
proof -
  show "opened s \<in> set (out_timelines (lb_click (lb_backdrop (opened s)) (openLightbox p s)))"
    using click_closes(1) [OF assms(1,2), of p] by (simp add: opened_def)
  show "opened s \<in> set (out_timelines (lb_click (lb_img (opened s)) (openLightbox p s)))"
    using click_closes(2) [OF assms(1,2), of p] by (simp add: opened_def)
  show "opened s \<in> set (out_timelines (lb_keydown ''Escape'' (openLightbox p s)))"
    by (rule escape_closes [OF assms(2)])
  show gone: "ldoc (out_onComplete (opened s) s') = ldoc s"
    by (rule out_onComplete_opened [OF assms])
  show "overlays (ldoc (out_onComplete (opened s) s')) = 0"
    using assms(2) by (simp add: gone overlays_def qs_None_iff)
  have absent: "lb (opened s) \<notin> set (ids (ldoc s))"
    using fresh_absent [OF assms(1), of 0] by (simp add: opened_def)
  have "lb (opened s) \<notin> set (ids (ldoc (out_onComplete (opened s) s')))"
    unfolding gone by (rule absent)
  then show "out_onComplete (opened s) (out_onComplete (opened s) s') = out_onComplete (opened s) s'"
    by (rule out_onComplete_absent)
qed

text \<open>
  On every page, a key other than Escape uses up the \<^verbatim>\<open>once\<close> listeners without
  starting a closing timeline, and an Escape that follows does nothing.
\<close>

lemma other_key_disarms_escape:
  "k \<noteq> ''Escape'' \<Longrightarrow>
   lb_keydown ''Escape'' (lb_keydown k s) = lb_keydown k s \<and>
   out_timelines (lb_keydown k s) = out_timelines s \<and>
   ldoc (lb_keydown k s) = ldoc s"
  using escape_used_up [of k s] by simp

text \<open>
  C3, at the input where the code departs from it. The lightbox is opened, some key
  other than Escape is pressed, then Escape: the \<^verbatim>\<open>once\<close> listener was used up by the
  first key, no closing timeline starts, and the overlay stays. Without the other key
  the Escape closes the lightbox.
\<close>

theorem escape_after_other_key_keeps_overlay:
  "out_timelines (lb_run poster_state [LbClick 2, LbKeyDown ''Shift'', LbKeyDown ''Escape'']) = [] \<and>
   overlays (ldoc (lb_run poster_state
      [LbClick 2, LbKeyDown ''Shift'', LbKeyDown ''Escape'', LbOutComplete])) = 1 \<and>
   overlays (ldoc (lb_run poster_state [LbClick 2, LbKeyDown ''Escape'', LbOutComplete])) = 0"
  by code_simp

section \<open>Properties of the modal\<close>

subsection \<open>Writes to one element and the queries\<close>

lemma flat_map_el: "flat (map_el i g d) = map (map_el i g) (flat d)"
proof (induction d)
  case (Node e ks)
  have "concat (map flat (map (map_el i g) ks)) = map (map_el i g) (concat (map flat ks))"
    using Node.IH by (induction ks) simp_all
  then show ?case by simp
qed

lemma el_map_el: "el (map_el i g n) = (if nid (el n) = i then g (el n) else el n)"
  by (cases n) simp

lemma kids_map_el: "kids (map_el i g n) = map (map_el i g) (kids n)"
  by (cases n) simp

lemma matches_harmless: "harmless g \<Longrightarrow> blind sel \<Longrightarrow> matches sel (g e) = matches sel e"
  by (cases sel) (auto simp: harmless_def blind_def)

lemma matches_map_el:
  "harmless g \<Longrightarrow> blind sel \<Longrightarrow> matches sel (el (map_el i g n)) = matches sel (el n)"
  by (simp add: el_map_el matches_harmless)

lemma nid_map_el: "harmless g \<Longrightarrow> nid (el (map_el i g n)) = nid (el n)"
  by (simp add: el_map_el harmless_def)

lemma filter_map_el:
  "harmless g \<Longrightarrow> blind sel \<Longrightarrow>
   filter (\<lambda>n. matches sel (el n)) (map (map_el i g) ns)
     = map (map_el i g) (filter (\<lambda>n. matches sel (el n)) ns)"
  by (induction ns) (simp_all add: matches_map_el)

lemma qsa_map_el:
  "harmless g \<Longrightarrow> blind sel \<Longrightarrow> qsa (map_el i g d) sel = map (map_el i g) (qsa d sel)"
  by (simp add: qsa_def flat_map_el filter_map_el)

lemma first_of_map: "first_of (map f xs) = map_option f (first_of xs)"
  by (cases xs) (simp_all add: first_of_def)

lemma qs_map_el:
  "harmless g \<Longrightarrow> blind sel \<Longrightarrow> qs (map_el i g d) sel = map_option (map_el i g) (qs d sel)"
  by (simp add: qs_def qsa_map_el first_of_map)

lemma descendants_map_el: "descendants (map_el i g n) = map (map_el i g) (descendants n)"
  by (simp add: descendants_def kids_map_el flat_map_el map_concat comp_def)

lemma querySelectorAll_map_el:
  "harmless g \<Longrightarrow> blind sel \<Longrightarrow>
   querySelectorAll (map_el i g n) sel = map (map_el i g) (querySelectorAll n sel)"
  by (simp add: querySelectorAll_def descendants_map_el filter_map_el)

lemma querySelector_map_el:
  "harmless g \<Longrightarrow> blind sel \<Longrightarrow>
   querySelector (map_el i g n) sel = map_option (map_el i g) (querySelector n sel)"
  by (simp add: querySelector_def querySelectorAll_map_el first_of_map)

lemma getModalEls_map_el:
  "harmless g \<Longrightarrow> getModalEls (map_el i g d) = map_option (write_els i g) (getModalEls d)"
  by (simp add: getModalEls_def qs_map_el querySelector_map_el querySelectorAll_map_el
      blind_def write_els_def split: option.splits)

lemma harmless_mark_open: "harmless mark_open"
  by (auto simp: harmless_def mark_open_def add_token_def)

lemma harmless_mark_closed: "harmless mark_closed"
  by (auto simp: harmless_def mark_closed_def remove_token_def)

lemma harmless_aria_hidden: "harmless (aria_hidden v)"
  by (simp add: harmless_def aria_hidden_def)

lemma classList_add_is_open: "classList_add i ''is-open'' d = map_el i mark_open d"
  by (simp add: classList_add_def mark_open_def [abs_def])

lemma classList_remove_is_open: "classList_remove i ''is-open'' d = map_el i mark_closed d"
  by (simp add: classList_remove_def mark_closed_def [abs_def])

lemma setAttribute_aria_hidden: "setAttribute i ''aria-hidden'' v d = map_el i (aria_hidden v) d"
  by (simp add: setAttribute_def aria_hidden_def [abs_def])

lemma modal_el_map_el:
  "harmless g \<Longrightarrow>
   modal_el (map_el i g d) = map_option (\<lambda>e. if nid e = i then g e else e) (modal_el d)"
  by (cases "getModalEls d")
     (simp_all add: modal_el_def getModalEls_map_el write_els_def el_map_el)

lemma node_id_map_el: "harmless g \<Longrightarrow> node_id (map_option (map_el i g) n) = node_id n"
  by (cases n) (simp_all add: node_id_def nid_map_el)

lemma targets_now_map_el: "harmless g \<Longrightarrow> targets_now (map_el i g d) = targets_now d"
  by (cases "getModalEls d")
     (simp_all add: targets_now_def getModalEls_map_el write_els_def node_id_map_el)

lemma map_of_set_attr: "map_of (set_attr k v as) k = Some v"
  by (induction as) auto

subsection \<open>What opening and closing do to the document\<close>

lemma mdoc_focus_first: "mdoc (focus_first m s) = mdoc s"
  by (simp add: focus_first_def focus_el_def split: list.splits)

lemma mdoc_buildTimelines: "buildTimelines x s = Inr s' \<Longrightarrow> mdoc s' = mdoc s"
  by (auto simp: buildTimelines_def Let_def split: option.splits if_splits)

lemma buildTimelines_backdrop:
  "backdrop els \<noteq> None \<Longrightarrow>
   buildTimelines (Some els) s
     = Inr (s\<lparr>gsap_calls := gsap_calls s @
               [GsapSet [node_id (backdrop els), node_id (content els)] [(''clearProps'', ''all'')],
                GsapTimeline [node_id (backdrop els), node_id (content els)],
                GsapTimeline [node_id (content els), node_id (backdrop els)]],
             openTL := Some [node_id (backdrop els), node_id (content els)],
             closeTL := Some [node_id (content els), node_id (backdrop els)]\<rparr>)"
  by (auto simp: buildTimelines_def Let_def set_array_throws_def node_id_def)

lemma buildTimelines_no_backdrop:
  "backdrop els = None \<Longrightarrow> buildTimelines (Some els) s = Inl ''TypeError''"
  by (simp add: buildTimelines_def Let_def set_array_throws_def node_id_def)

lemma mdoc_openModal:
  "getModalEls (mdoc s) = Some els \<Longrightarrow>
   mdoc (openModal s)
     = map_el (nid (el (modal els))) (aria_hidden ''false'')
         (map_el (nid (el (modal els))) mark_open (mdoc s))"
  by (cases "backdrop els")
     (simp_all add: openModal_def Let_def mdoc_focus_first buildTimelines_backdrop
        buildTimelines_no_backdrop classList_add_is_open setAttribute_aria_hidden
        split: option.splits)

lemma mdoc_closeModal: "mdoc (closeModal s) = mdoc s"
proof (cases "getModalEls (mdoc s)")
  case None
  then show ?thesis by (simp add: closeModal_def)
next
  case (Some els)
  then show ?thesis
    by (cases "backdrop els")
       (simp_all add: closeModal_def buildTimelines_backdrop buildTimelines_no_backdrop
          split: option.splits)
qed

lemma mdoc_close_callback:
  "mdoc (close_callback s m) = map_el m (aria_hidden ''true'') (map_el m mark_closed (mdoc s))"
  by (simp add: close_callback_def classList_remove_is_open setAttribute_aria_hidden)

lemma modal_el_nid: "getModalEls d = Some els \<Longrightarrow> modal_el d = Some (el (modal els))"
  by (simp add: modal_el_def)

lemma modal_el_close_callback:
  "modal_el (mdoc (close_callback s m))
     = map_option (\<lambda>e. if nid e = m then aria_hidden ''true'' (mark_closed e) else e)
         (modal_el (mdoc s))"
  by (cases "modal_el (mdoc s)")
     (auto simp: mdoc_close_callback modal_el_map_el harmless_aria_hidden harmless_mark_closed
        mark_closed_def)

lemma modal_el_callbacks:
  "modal_el (mdoc s) = Some e \<Longrightarrow>
   \<exists>e'. modal_el (mdoc (foldl close_callback s ms)) = Some e' \<and> nid e' = nid e"
proof (induction ms arbitrary: s e)
  case Nil
  then show ?case by simp
next
  case (Cons m ms)
  have "\<exists>e1. modal_el (mdoc (close_callback s m)) = Some e1 \<and> nid e1 = nid e"
    using Cons.prems by (simp add: modal_el_close_callback aria_hidden_def mark_closed_def)
  then obtain e1 where "modal_el (mdoc (close_callback s m)) = Some e1" and "nid e1 = nid e"
    by blast
  with Cons.IH [of "close_callback s m" e1] show ?case by simp
qed

lemma close_then_closeModal:
  "getModalEls (mdoc s) = Some els \<Longrightarrow> backdrop els \<noteq> None \<Longrightarrow>
   close_then (closeModal s) = close_then s @ [nid (el (modal els))]"
  by (simp add: closeModal_def buildTimelines_backdrop split: option.splits)

lemma close_then_focus_first: "close_then (focus_first m s) = close_then s"
  by (simp add: focus_first_def focus_el_def split: list.splits)

lemma close_then_openModal: "close_then (openModal s) = close_then s"
proof (cases "getModalEls (mdoc s)")
  case None
  then show ?thesis by (simp add: openModal_def)
next
  case (Some els)
  then show ?thesis
    by (cases "backdrop els")
       (simp_all add: openModal_def Let_def buildTimelines_backdrop buildTimelines_no_backdrop
          close_then_focus_first split: option.splits)
qed

lemma modal_el_closed:
  assumes "modal_el (mdoc s) = Some e" and "close_then s = ms @ [nid e]"
  shows "\<exists>e'. modal_el (mdoc (closeTL_complete s)) = Some e' \<and> nid e' = nid e \<and>
              ''is-open'' \<notin> set (classes e') \<and> getAttribute e' ''aria-hidden'' = Some ''true''"
proof -
  let ?s = "foldl close_callback (s\<lparr>close_then := []\<rparr>) ms"
  have "modal_el (mdoc (s\<lparr>close_then := []\<rparr>)) = Some e"
    using assms(1) by simp
  from modal_el_callbacks [OF this, of ms]
  obtain e1 where e1: "modal_el (mdoc ?s) = Some e1" "nid e1 = nid e"
    by blast
  have "closeTL_complete s = close_callback ?s (nid e)"
    by (simp add: closeTL_complete_def assms(2))
  then have "modal_el (mdoc (closeTL_complete s)) = Some (aria_hidden ''true'' (mark_closed e1))"
    using e1 by (simp add: modal_el_close_callback)
  then show ?thesis
    using e1(2)
    by (simp add: aria_hidden_def mark_closed_def remove_token_def getAttribute_def map_of_set_attr)
qed

lemma modal_el_opened:
  assumes "getModalEls (mdoc s) = Some els"
  shows "modal_el (mdoc (openModal s)) = Some (aria_hidden ''false'' (mark_open (el (modal els))))"
  using assms
  by (simp add: mdoc_openModal modal_el_map_el harmless_aria_hidden harmless_mark_open
      modal_el_nid mark_open_def)

lemma backdrop_after_write:
  "harmless g \<Longrightarrow> getModalEls d = Some els \<Longrightarrow> backdrop els \<noteq> None \<Longrightarrow>
   \<exists>els'. getModalEls (map_el i g d) = Some els' \<and> backdrop els' \<noteq> None"
  by (simp add: getModalEls_map_el write_els_def)

lemma backdrop_after_openModal:
  assumes "getModalEls (mdoc s) = Some els" and "backdrop els \<noteq> None"
  shows "\<exists>els'. getModalEls (mdoc (openModal s)) = Some els' \<and> backdrop els' \<noteq> None"
proof -
  obtain els1 where "getModalEls (map_el (nid (el (modal els))) mark_open (mdoc s)) = Some els1"
      and "backdrop els1 \<noteq> None"
    using backdrop_after_write [OF harmless_mark_open assms] by blast
  then show ?thesis
    using backdrop_after_write [OF harmless_aria_hidden, of _ els1]
    by (simp add: mdoc_openModal [OF assms(1)])
qed

text \<open>
  With the modal and its backdrop in the document, \<^verbatim>\<open>openModal\<close> returns with the class
  \<^verbatim>\<open>is-open\<close> on the modal and its \<^verbatim>\<open>aria-hidden\<close> set to \<^verbatim>\<open>false\<close>, before any timeline has
  completed. A following \<^verbatim>\<open>closeModal\<close> leaves both as they are while the close
  timeline runs; when that timeline completes, the class is removed and \<^verbatim>\<open>aria-hidden\<close>
  is \<^verbatim>\<open>true\<close>.
\<close>

lemma open_close_cycle:
  assumes "getModalEls (mdoc s) = Some els" and "backdrop els \<noteq> None"
  shows "(\<exists>e. modal_el (mdoc (openModal s)) = Some e \<and> nid e = nid (el (modal els)) \<and>
             ''is-open'' \<in> set (classes e) \<and> getAttribute e ''aria-hidden'' = Some ''false'') \<and>
         modal_el (mdoc (closeModal (openModal s))) = modal_el (mdoc (openModal s)) \<and>
         (\<exists>e. modal_el (mdoc (closeTL_complete (closeModal (openModal s)))) = Some e \<and>
             nid e = nid (el (modal els)) \<and>
             ''is-open'' \<notin> set (classes e) \<and> getAttribute e ''aria-hidden'' = Some ''true'')"
proof -
  let ?e = "aria_hidden ''false'' (mark_open (el (modal els)))"
  have opened: "modal_el (mdoc (openModal s)) = Some ?e"
    by (rule modal_el_opened [OF assms(1)])
  have id: "nid ?e = nid (el (modal els))"
    by (simp add: aria_hidden_def mark_open_def)
  have "''is-open'' \<in> set (classes ?e)"
    by (simp add: aria_hidden_def mark_open_def add_token_def)
  moreover have "getAttribute ?e ''aria-hidden'' = Some ''false''"
    by (simp add: aria_hidden_def getAttribute_def map_of_set_attr)
  ultimately have first: "\<exists>e. modal_el (mdoc (openModal s)) = Some e \<and>
      nid e = nid (el (modal els)) \<and> ''is-open'' \<in> set (classes e) \<and>
      getAttribute e ''aria-hidden'' = Some ''false''"
    using opened id by blast
  have second: "modal_el (mdoc (closeModal (openModal s))) = modal_el (mdoc (openModal s))"
    by (simp add: mdoc_closeModal)
  obtain els' where els': "getModalEls (mdoc (openModal s)) = Some els'"
      and bd: "backdrop els' \<noteq> None"
    using backdrop_after_openModal [OF assms] by blast
  then have same: "el (modal els') = ?e"
    using opened by (simp add: modal_el_def)
  have waiting: "close_then (closeModal (openModal s)) = close_then (openModal s) @ [nid ?e]"
    using close_then_closeModal [OF els' bd] same by simp
  have "modal_el (mdoc (closeModal (openModal s))) = Some ?e"
    using second opened by simp
  from modal_el_closed [OF this waiting] id
  have third: "\<exists>e. modal_el (mdoc (closeTL_complete (closeModal (openModal s)))) = Some e \<and>
      nid e = nid (el (modal els)) \<and> ''is-open'' \<notin> set (classes e) \<and>
      getAttribute e ''aria-hidden'' = Some ''true''"
    by simp
  from first second third show ?thesis by blast
qed

lemma open_close_cycle_example:
  "getModalEls (mdoc modal_state) \<noteq> None \<and>
   (\<exists>e. modal_el (mdoc (openModal modal_state)) = Some e \<and> nid e = 3 \<and>
       ''is-open'' \<in> set (classes e) \<and> getAttribute e ''aria-hidden'' = Some ''false'') \<and>
   (\<exists>e. modal_el (mdoc (closeTL_complete (closeModal (openModal modal_state)))) = Some e \<and>
       nid e = 3 \<and>
       ''is-open'' \<notin> set (classes e) \<and> getAttribute e ''aria-hidden'' = Some ''true'')"
proof -
  have present: "getModalEls (mdoc modal_state) \<noteq> None"
    by code_simp
  then obtain els where els: "getModalEls (mdoc modal_state) = Some els"
    by blast
  have "map_option (\<lambda>x. (nid (el (modal x)), backdrop x \<noteq> None)) (getModalEls (mdoc modal_state))
      = Some (3, True)"
    by code_simp
  then have "nid (el (modal els)) = 3" and bd: "backdrop els \<noteq> None"
    using els by simp_all
  then show ?thesis
    using open_close_cycle [OF els bd] present by simp
qed

text \<open>
  C4, at the input where the code departs from it. The modal is in the document but
  has no element of class \<^verbatim>\<open>modal-backdrop\<close>. A click on the open-button puts \<^verbatim>\<open>is-open\<close> on
  the modal and sets \<^verbatim>\<open>aria-hidden\<close> to \<^verbatim>\<open>false\<close>, and then \<^verbatim>\<open>buildTimelines\<close> throws: the
  handles stay \<^verbatim>\<open>null\<close>. A click on the close button throws at the same place, before a
  callback is passed to \<^verbatim>\<open>then\<close>; nothing waits for the close timeline, and the modal
  keeps \<^verbatim>\<open>is-open\<close> and \<^verbatim>\<open>aria-hidden\<close> \<^verbatim>\<open>false\<close> for good.
\<close>

theorem closeModal_without_backdrop_stays_open:
  "map_option (\<lambda>x. (nid (el (modal x)), node_id (backdrop x))) (getModalEls no_backdrop_page)
     = Some (3, None) \<and>
   map_option classes (modal_el (mdoc (reached no_backdrop_page None [1, 7, 9] [MClick (Element 2)])))
     = Some [''modal'', ''is-open''] \<and>
   uncaught (reached no_backdrop_page None [1, 7, 9] [MClick (Element 2)]) = [''TypeError''] \<and>
   openTL (reached no_backdrop_page None [1, 7, 9] [MClick (Element 2)]) = None \<and>
   close_then (reached no_backdrop_page None [1, 7, 9] [MClick (Element 2), MClick (Element 7)]) = [] \<and>
   uncaught (reached no_backdrop_page None [1, 7, 9] [MClick (Element 2), MClick (Element 7)])
     = [''TypeError'', ''TypeError''] \<and>
   map_option classes (modal_el (mdoc (reached no_backdrop_page None [1, 7, 9]
      [MClick (Element 2), MClick (Element 7), MCloseDone])))
     = Some [''modal'', ''is-open''] \<and>
   map_option (\<lambda>e. getAttribute e ''aria-hidden'') (modal_el (mdoc (reached no_backdrop_page None [1, 7, 9]
      [MClick (Element 2), MClick (Element 7), MCloseDone])))
     = Some (Some ''false'')"
  by code_simp

subsection \<open>Requests while the modal is absent\<close>

lemma getModalEls_None_iff: "getModalEls d = None \<longleftrightarrow> qs d (ById ''detailsModal'') = None"
  by (simp add: getModalEls_def split: option.splits)

text \<open>
  C7, as the code has it. While no element \<^verbatim>\<open>#detailsModal\<close> is in the document,
  \<^verbatim>\<open>openModal\<close> writes the warning to the console and changes nothing else, and
  \<^verbatim>\<open>closeModal\<close> changes nothing at all: it writes no warning. Neither throws, and the
  listeners leave the page as it is, but for a click on the open-button, which is the
  call of \<^verbatim>\<open>openModal\<close>.
\<close>

theorem absent_modal_requests_ignored:
  assumes "qs (mdoc s) (ById ''detailsModal'') = None"
  shows "openModal s = s\<lparr>console := console s @ [''Modal not found'']\<rparr> \<and>
         closeModal s = s \<and>
         uncaught (openModal s) = uncaught s \<and>
         on_click t s = (if has_closest (mdoc s) t (ById ''viewDetailsBtn'') then openModal s else s) \<and>
         on_keydown k s = s \<and>
         on_focusin t s = s"
proof -
  have absent: "getModalEls (mdoc s) = None"
    using assms by (simp add: getModalEls_None_iff)
  then show ?thesis
    by (simp add: openModal_def closeModal_def on_click_def on_keydown_def on_focusin_def)
qed

theorem absent_modal_requests_ignored_witness:
  "qs (mdoc (initModal bare_page None [1])) (ById ''detailsModal'') = None \<and>
   console (openModal (initModal bare_page None [1])) = [''Modal not found''] \<and>
   closeModal (initModal bare_page None [1]) = initModal bare_page None [1] \<and>
   on_keydown ''Escape'' (initModal bare_page None [1]) = initModal bare_page None [1]"
proof -
  have absent: "qs (mdoc (initModal bare_page None [1])) (ById ''detailsModal'') = None"
    by code_simp
  show ?thesis
    using absent_modal_requests_ignored [OF absent, of NonElement "''Escape''"] absent
    by (simp add: initModal_def)
qed

text \<open>
  The claim as the specification states it has \<^verbatim>\<open>closeModal\<close> write a warning too: on a
  page without the modal the console is as empty after \<^verbatim>\<open>closeModal\<close> as before.
\<close>

theorem closeModal_absent_not_logged:
  "qs (mdoc (initModal bare_page None [1])) (ById ''detailsModal'') = None \<and>
   console (initModal bare_page None [1]) = [] \<and>
   console (closeModal (initModal bare_page None [1])) = [] \<and>
   console (openModal (initModal bare_page None [1])) = [''Modal not found'']"
  by code_simp

subsection \<open>Clicks\<close>

text \<open>
  C5, as the code has it. With the modal in the document: a click whose target is the
  backdrop element itself calls \<^verbatim>\<open>closeModal\<close>, unless the backdrop lies inside the
  open-button, which is looked at first; a click whose target is not the backdrop and
  has no close button among itself and its ancestors does not call \<^verbatim>\<open>closeModal\<close>.
\<close>

theorem backdrop_click_closes:
  assumes "getModalEls (mdoc s) = Some els"
  shows "(is_backdrop t els \<and> \<not> has_closest (mdoc s) t (ById ''viewDetailsBtn'') \<longrightarrow>
            on_click t s = closeModal s \<and>
            close_then (on_click t s) = close_then s @ [nid (el (modal els))]) \<and>
         (\<not> is_backdrop t els \<and> \<not> has_closest (mdoc s) t (ByClass ''modal-close-btn'') \<longrightarrow>
            on_click t s = (if has_closest (mdoc s) t (ById ''viewDetailsBtn'') then openModal s else s) \<and>
            close_then (on_click t s) = close_then s)"
proof -
  have "close_then (closeModal s) = close_then s @ [nid (el (modal els))]" if "is_backdrop t els"
  proof -
    have "backdrop els \<noteq> None"
      using that by (auto simp: is_backdrop_def split: target.splits option.splits)
    then show ?thesis by (rule close_then_closeModal [OF assms])
  qed
  then show ?thesis
    using assms by (auto simp: on_click_def close_then_openModal)
qed

theorem backdrop_click_closes_witness:
  "getModalEls (mdoc (openModal modal_state)) \<noteq> None \<and>
   \<not> has_closest (mdoc (openModal modal_state)) (Element 4) (ById ''viewDetailsBtn'') \<and>
   \<not> has_closest (mdoc (openModal modal_state)) (Element 6) (ByClass ''modal-close-btn'') \<and>
   on_click (Element 4) (openModal modal_state) = closeModal (openModal modal_state) \<and>
   close_then (on_click (Element 4) (openModal modal_state)) = [3] \<and>
   on_click (Element 6) (openModal modal_state) = openModal modal_state \<and>
   close_then (on_click (Element 6) (openModal modal_state)) = []"
proof -
  let ?s = "openModal modal_state"
  have present: "getModalEls (mdoc ?s) \<noteq> None"
    by code_simp
  then obtain els where els: "getModalEls (mdoc ?s) = Some els"
    by blast
  have "map_option (\<lambda>x. (nid (el (modal x)), is_backdrop (Element 4) x, is_backdrop (Element 6) x))
      (getModalEls (mdoc ?s)) = Some (3, True, False)"
    by code_simp
  then have facts: "nid (el (modal els)) = 3" "is_backdrop (Element 4) els"
      "\<not> is_backdrop (Element 6) els"
    using els by simp_all
  have h4: "\<not> has_closest (mdoc ?s) (Element 4) (ById ''viewDetailsBtn'')"
    by code_simp
  have h6: "\<not> has_closest (mdoc ?s) (Element 6) (ByClass ''modal-close-btn'')"
    "\<not> has_closest (mdoc ?s) (Element 6) (ById ''viewDetailsBtn'')"
    by code_simp+
  have c: "close_then ?s = []"
    by code_simp
  show ?thesis
    using backdrop_click_closes [OF els, of "Element 4"] backdrop_click_closes [OF els, of "Element 6"]
      present facts h4 h6 c
    by auto
qed

text \<open>
  The claim as the specification states it, for a click on the backdrop itself: on a
  page whose modal lies inside the element with the \<^verbatim>\<open>id\<close> \<^verbatim>\<open>viewDetailsBtn\<close>, the click
  on the backdrop of the open modal is taken for a click on the open-button. The
  handler calls \<^verbatim>\<open>openModal\<close> and returns; nothing waits for a close timeline, and the
  modal stays open.
\<close>

theorem backdrop_click_inside_trigger_opens:
  "(case getModalEls (mdoc (openModal (initModal nested_page None [7]))) of
      None \<Rightarrow> False
    | Some els \<Rightarrow> is_backdrop (Element 4) els) \<and>
   has_closest (mdoc (openModal (initModal nested_page None [7]))) (Element 4)
     (ById ''viewDetailsBtn'') \<and>
   close_then (openModal (initModal nested_page None [7])) = [] \<and>
   on_click (Element 4) (openModal (initModal nested_page None [7]))
     = openModal (openModal (initModal nested_page None [7])) \<and>
   close_then (on_click (Element 4) (openModal (initModal nested_page None [7]))) = [] \<and>
   map_option classes (modal_el (mdoc (closeTL_complete
       (on_click (Element 4) (openModal (initModal nested_page None [7]))))))
     = Some [''modal'', ''is-open'']"
  by code_simp

text \<open>
  Close buttons are matched through their descendants too: the icon inside the close
  button (element 8) does not carry the class itself, and a click on it closes the
  modal.
\<close>

lemma click_on_icon_closes:
  "(case getModalEls (mdoc (openModal modal_state)) of
      None \<Rightarrow> False
    | Some els \<Rightarrow>
        (case content els of None \<Rightarrow> False | Some c \<Rightarrow> contains c 8) \<and>
        (case backdrop els of None \<Rightarrow> False | Some b \<Rightarrow> contains b 8 \<and> nid (el b) \<noteq> 8) \<and>
        8 \<notin> set (map (\<lambda>n. nid (el n)) (closeBtns els))) \<and>
   close_then (openModal modal_state) = [] \<and>
   close_then (on_click (Element 8) (openModal modal_state)) = [3] \<and>
   on_click (Element 8) (openModal modal_state) = closeModal (openModal modal_state)"
  by code_simp

subsection \<open>The focus trap\<close>

lemma querySelectorAll_contained:
  "f \<in> set (querySelectorAll m sel) \<Longrightarrow> contains m (nid (el f))"
  by (cases m) (auto simp: querySelectorAll_def descendants_def contains_def)

lemma on_focusin_inside:
  "getModalEls (mdoc s) = Some els \<Longrightarrow> contains (modal els) i \<Longrightarrow> on_focusin (Element i) s = s"
  by (simp add: on_focusin_def contains_target_def)

lemma getModalEls_focus_first: "getModalEls (mdoc (focus_first m s)) = getModalEls (mdoc s)"
  by (simp add: mdoc_focus_first)

lemma on_focusin_after_focus:
  assumes "getModalEls (mdoc s) = Some els"
    and "querySelectorAll (modal els) focusable_selector = f # fs"
  shows "on_focusin (Element (nid (el f))) (focus_first (modal els) s) = focus_first (modal els) s"
proof -
  have "f \<in> set (querySelectorAll (modal els) focusable_selector)"
    using assms(2) by simp
  then have "contains (modal els) (nid (el f))"
    by (rule querySelectorAll_contained)
  moreover have "getModalEls (mdoc (focus_first (modal els) s)) = Some els"
    using assms(1) by (simp add: getModalEls_focus_first)
  ultimately show ?thesis
    by (rule on_focusin_inside [rotated])
qed

text \<open>
  C9, as the code has it. While the modal has the class \<^verbatim>\<open>is-open\<close>, a \<^verbatim>\<open>focusin\<close> whose
  target is not in the modal's subtree calls \<^verbatim>\<open>focus()\<close> on the first descendant of the
  modal that matches \<^verbatim>\<open>a, button, input, textarea, select\<close>, an element of the modal. When
  that element can take the focus, the focus moves to it, and the \<^verbatim>\<open>focusin\<close> this
  raises changes nothing further; when it cannot, or when the modal has no such
  descendant, the page stays as it is. A \<^verbatim>\<open>focusin\<close> whose target is in the modal's
  subtree, or one that arrives while the modal lacks the class, changes nothing.
\<close>

theorem focusin_redirects_outside_focus:
  assumes "getModalEls (mdoc s) = Some els"
  shows "(classList_contains (modal els) ''is-open'' \<and> \<not> contains_target (modal els) t \<longrightarrow>
            (\<forall>f fs. querySelectorAll (modal els) focusable_selector = f # fs \<longrightarrow>
               on_focusin t s
                 = (if nid (el f) \<in> set (can_focus s) then s\<lparr>activeElement := Some (nid (el f))\<rparr>
                    else s) \<and>
               contains (modal els) (nid (el f)) \<and>
               on_focusin (Element (nid (el f))) (on_focusin t s) = on_focusin t s) \<and>
            (querySelectorAll (modal els) focusable_selector = [] \<longrightarrow> on_focusin t s = s)) \<and>
         (contains_target (modal els) t \<or> \<not> classList_contains (modal els) ''is-open'' \<longrightarrow>
            on_focusin t s = s)"
proof -
  have inside: "contains_target (modal els) t \<or> \<not> classList_contains (modal els) ''is-open'' \<longrightarrow>
      on_focusin t s = s"
    using assms by (auto simp: on_focusin_def)
  have outside: "on_focusin t s = focus_first (modal els) s"
    if "classList_contains (modal els) ''is-open''" "\<not> contains_target (modal els) t"
    using assms that by (simp add: on_focusin_def)
  have some: "on_focusin t s
        = (if nid (el f) \<in> set (can_focus s) then s\<lparr>activeElement := Some (nid (el f))\<rparr> else s) \<and>
      contains (modal els) (nid (el f)) \<and>
      on_focusin (Element (nid (el f))) (on_focusin t s) = on_focusin t s"
    if "classList_contains (modal els) ''is-open''" "\<not> contains_target (modal els) t"
      "querySelectorAll (modal els) focusable_selector = f # fs" for f fs
  proof -
    have "f \<in> set (querySelectorAll (modal els) focusable_selector)"
      using that(3) by simp
    then have "contains (modal els) (nid (el f))"
      by (rule querySelectorAll_contained)
    moreover have "on_focusin t s
        = (if nid (el f) \<in> set (can_focus s) then s\<lparr>activeElement := Some (nid (el f))\<rparr> else s)"
      using outside [OF that(1,2)] that(3) by (simp add: focus_first_def focus_el_def)
    moreover have "on_focusin (Element (nid (el f))) (on_focusin t s) = on_focusin t s"
      using on_focusin_after_focus [OF assms that(3)] outside [OF that(1,2)] by simp
    ultimately show ?thesis by blast
  qed
  have none: "on_focusin t s = s"
    if "classList_contains (modal els) ''is-open''" "\<not> contains_target (modal els) t"
      "querySelectorAll (modal els) focusable_selector = []"
    using outside [OF that(1,2)] that(3) by (simp add: focus_first_def)
  show ?thesis
    using inside some none by blast
qed

theorem focusin_redirects_outside_focus_witness:
  "getModalEls (mdoc (openModal modal_state)) \<noteq> None \<and>
   7 \<in> set (can_focus (openModal modal_state)) \<and>
   on_focusin (Element 1) ((openModal modal_state)\<lparr>activeElement := Some 1\<rparr>)
     = (openModal modal_state)\<lparr>activeElement := Some 7\<rparr> \<and>
   on_focusin (Element 9) ((openModal modal_state)\<lparr>activeElement := Some 9\<rparr>)
     = (openModal modal_state)\<lparr>activeElement := Some 9\<rparr> \<and>
   on_focusin (Element 1) (modal_state\<lparr>activeElement := Some 1\<rparr>)
     = modal_state\<lparr>activeElement := Some 1\<rparr>"
proof -
  let ?s = "(openModal modal_state)\<lparr>activeElement := Some 1\<rparr>"
  let ?s9 = "(openModal modal_state)\<lparr>activeElement := Some 9\<rparr>"
  let ?c = "modal_state\<lparr>activeElement := Some 1\<rparr>"
  have present: "getModalEls (mdoc (openModal modal_state)) \<noteq> None"
    by code_simp
  then obtain els where els: "getModalEls (mdoc ?s) = Some els"
    by auto
  then have els9: "getModalEls (mdoc ?s9) = Some els"
    by simp
  have can: "7 \<in> set (can_focus (openModal modal_state))"
    by code_simp
  have "map_option (\<lambda>x. (classList_contains (modal x) ''is-open'',
         contains_target (modal x) (Element 1), contains_target (modal x) (Element 9),
         map (\<lambda>n. nid (el n)) (querySelectorAll (modal x) focusable_selector)))
      (getModalEls (mdoc ?s)) = Some (True, False, True, [7, 9])"
    by code_simp
  then have facts: "classList_contains (modal els) ''is-open''"
      "\<not> contains_target (modal els) (Element 1)" "contains_target (modal els) (Element 9)"
      "map (\<lambda>n. nid (el n)) (querySelectorAll (modal els) focusable_selector) = [7, 9]"
    using els by simp_all
  from facts(4) obtain f fs where f: "querySelectorAll (modal els) focusable_selector = f # fs"
      "nid (el f) = 7"
    by auto
  have a: "on_focusin (Element 1) ?s = ?s\<lparr>activeElement := Some 7\<rparr>"
    using focusin_redirects_outside_focus [OF els, of "Element 1"] facts(1,2) f can by auto
  have b: "on_focusin (Element 9) ?s9 = ?s9"
    using focusin_redirects_outside_focus [OF els9, of "Element 9"] facts(3) by blast
  have "getModalEls (mdoc modal_state) \<noteq> None"
    by code_simp
  then obtain els0 where els0: "getModalEls (mdoc ?c) = Some els0"
    by auto
  have "map_option (\<lambda>x. classList_contains (modal x) ''is-open'') (getModalEls (mdoc ?c)) \<noteq> Some True"
    by code_simp
  then have "\<not> classList_contains (modal els0) ''is-open''"
    using els0 by simp
  then have c: "on_focusin (Element 1) ?c = ?c"
    using focusin_redirects_outside_focus [OF els0, of "Element 1"] by blast
  show ?thesis
    using present can a b c by simp
qed

text \<open>
  The claim as the specification states it has the focus go to the first match in
  every case. On a page whose open modal has a link without \<^verbatim>\<open>href\<close> as its first match,
  the focus moves to the open-button outside the modal; the listener calls \<^verbatim>\<open>focus()\<close>
  on the link, which cannot take the focus, and the focus stays on the open-button,
  outside the modal, although the close button after the link could have taken it.
\<close>

theorem focus_stays_outside_modal:
  "(case getModalEls (mdoc dead_link_state) of
      None \<Rightarrow> False
    | Some els \<Rightarrow>
        classList_contains (modal els) ''is-open'' \<and>
        \<not> contains_target (modal els) (Element 1) \<and>
        map (\<lambda>n. (nid (el n), tag (el n), getAttribute (el n) ''href''))
          (querySelectorAll (modal els) focusable_selector)
          = [(6, ''a'', None), (7, ''button'', None)]) \<and>
   can_focus dead_link_state = [1, 7] \<and>
   on_focusin (Element 1) (browser_focus (Element 1) dead_link_state)
     = browser_focus (Element 1) dead_link_state \<and>
   activeElement (m_run dead_link_state [MFocusIn (Element 1)]) = Some 1"
  by code_simp

subsection \<open>The timeline handles\<close>

lemma openModal_absent:
  "getModalEls (mdoc s) = None \<Longrightarrow>
   openTL (openModal s) = openTL s \<and> closeTL (openModal s) = closeTL s \<and>
   gsap_calls (openModal s) = gsap_calls s \<and> mdoc (openModal s) = mdoc s"
  by (simp add: openModal_def)

lemma focus_first_keeps:
  "openTL (focus_first m s) = openTL s \<and> closeTL (focus_first m s) = closeTL s \<and>
   gsap_calls (focus_first m s) = gsap_calls s"
  by (simp add: focus_first_def focus_el_def split: list.splits)

lemma openModal_builds:
  "getModalEls (mdoc s) = Some els \<Longrightarrow> backdrop els \<noteq> None \<Longrightarrow> openTL s = None \<Longrightarrow>
   openTL (openModal s) = Some [node_id (backdrop els), node_id (content els)] \<and>
   closeTL (openModal s) = Some [node_id (content els), node_id (backdrop els)] \<and>
   timelines_created (openModal s) = timelines_created s + 2"
  by (simp add: openModal_def Let_def buildTimelines_backdrop focus_first_keeps
      timelines_created_def is_creation_def)

lemma openModal_throws:
  "getModalEls (mdoc s) = Some els \<Longrightarrow> backdrop els = None \<Longrightarrow> openTL s = None \<Longrightarrow>
   openTL (openModal s) = None \<and> closeTL (openModal s) = closeTL s \<and>
   gsap_calls (openModal s) = gsap_calls s \<and>
   uncaught (openModal s) = uncaught s @ [''TypeError'']"
  by (simp add: openModal_def Let_def buildTimelines_no_backdrop)

lemma openModal_reuses:
  "getModalEls (mdoc s) = Some els \<Longrightarrow> openTL s = Some tline \<Longrightarrow>
   openTL (openModal s) = Some tline \<and> closeTL (openModal s) = closeTL s \<and>
   timelines_created (openModal s) = timelines_created s \<and>
   last (gsap_calls (openModal s)) = Play tline"
  by (simp add: openModal_def Let_def focus_first_keeps timelines_created_def is_creation_def)

lemma closeModal_absent: "getModalEls (mdoc s) = None \<Longrightarrow> closeModal s = s"
  by (simp add: closeModal_def)

lemma closeModal_builds:
  "getModalEls (mdoc s) = Some els \<Longrightarrow> backdrop els \<noteq> None \<Longrightarrow> closeTL s = None \<Longrightarrow>
   openTL (closeModal s) = Some [node_id (backdrop els), node_id (content els)] \<and>
   closeTL (closeModal s) = Some [node_id (content els), node_id (backdrop els)] \<and>
   timelines_created (closeModal s) = timelines_created s + 2"
  by (simp add: closeModal_def buildTimelines_backdrop timelines_created_def is_creation_def)

lemma closeModal_throws:
  "getModalEls (mdoc s) = Some els \<Longrightarrow> backdrop els = None \<Longrightarrow> closeTL s = None \<Longrightarrow>
   closeModal s = s\<lparr>uncaught := uncaught s @ [''TypeError'']\<rparr>"
  by (simp add: closeModal_def buildTimelines_no_backdrop)

lemma closeModal_reuses:
  "getModalEls (mdoc s) = Some els \<Longrightarrow> closeTL s = Some tline \<Longrightarrow>
   openTL (closeModal s) = openTL s \<and> closeTL (closeModal s) = Some tline \<and>
   timelines_created (closeModal s) = timelines_created s \<and>
   last (gsap_calls (closeModal s)) = Play tline"
  by (simp add: closeModal_def timelines_created_def is_creation_def)

lemma handles_ok_iff:
  "handles_ok s \<longleftrightarrow>
     (openTL s = None \<and> closeTL s = None \<and> timelines_created s = 0) \<or>
     (\<exists>b c. openTL s = Some [b, c] \<and> closeTL s = Some [c, b] \<and> timelines_created s = 2)"
proof (cases "openTL s")
  case None
  then show ?thesis by (simp add: handles_ok_def)
next
  case (Some tline)
  have "length tline = 2 \<longleftrightarrow> (\<exists>b c. tline = [b, c])"
    by (auto simp: length_Suc_conv numeral_2_eq_2)
  then show ?thesis using Some by (auto simp: handles_ok_def)
qed

lemma handles_ok_openModal: "handles_ok s \<Longrightarrow> handles_ok (openModal s)"
proof (cases "getModalEls (mdoc s)")
  case None
  assume "handles_ok s"
  then show ?thesis
    using openModal_absent [OF None] by (simp add: handles_ok_iff timelines_created_def)
next
  case (Some els)
  assume ok: "handles_ok s"
  show ?thesis
  proof (cases "openTL s")
    case None
    show ?thesis
    proof (cases "backdrop els")
      case absent: None
      then show ?thesis
        using ok None openModal_throws [OF Some absent None]
        by (auto simp: handles_ok_iff timelines_created_def)
    next
      case (Some b)
      then have "backdrop els \<noteq> None" by simp
      then show ?thesis
        using ok None openModal_builds [OF \<open>getModalEls (mdoc s) = Some els\<close> _ None]
        by (auto simp: handles_ok_iff)
    qed
  next
    case (Some tline)
    then show ?thesis
      using ok openModal_reuses [OF \<open>getModalEls (mdoc s) = Some els\<close> Some]
      by (auto simp: handles_ok_iff)
  qed
qed

lemma handles_ok_closeModal: "handles_ok s \<Longrightarrow> handles_ok (closeModal s)"
proof (cases "getModalEls (mdoc s)")
  case None
  assume "handles_ok s"
  then show ?thesis by (simp add: closeModal_absent [OF None])
next
  case (Some els)
  assume ok: "handles_ok s"
  show ?thesis
  proof (cases "closeTL s")
    case None
    show ?thesis
    proof (cases "backdrop els")
      case absent: None
      then show ?thesis
        using ok None closeModal_throws [OF Some absent None]
        by (auto simp: handles_ok_iff timelines_created_def)
    next
      case (Some b)
      then have "backdrop els \<noteq> None" by simp
      then show ?thesis
        using ok None closeModal_builds [OF \<open>getModalEls (mdoc s) = Some els\<close> _ None]
        by (auto simp: handles_ok_iff)
    qed
  next
    case (Some tline)
    then show ?thesis
      using ok closeModal_reuses [OF \<open>getModalEls (mdoc s) = Some els\<close> Some]
      by (auto simp: handles_ok_iff)
  qed
qed

lemma callbacks_keep:
  "openTL (foldl close_callback s ms) = openTL s \<and>
   closeTL (foldl close_callback s ms) = closeTL s \<and>
   gsap_calls (foldl close_callback s ms) = gsap_calls s"
  by (induction ms arbitrary: s) (simp_all add: close_callback_def)

lemma closeTL_complete_keeps:
  "openTL (closeTL_complete s) = openTL s \<and> closeTL (closeTL_complete s) = closeTL s \<and>
   gsap_calls (closeTL_complete s) = gsap_calls s"
  by (simp add: closeTL_complete_def callbacks_keep)

lemma on_focusin_keeps:
  "openTL (on_focusin t s) = openTL s \<and> closeTL (on_focusin t s) = closeTL s \<and>
   gsap_calls (on_focusin t s) = gsap_calls s \<and> mdoc (on_focusin t s) = mdoc s"
  by (simp add: on_focusin_def focus_first_keeps mdoc_focus_first split: option.splits)

lemma browser_focus_keeps:
  "openTL (browser_focus t s) = openTL s \<and> closeTL (browser_focus t s) = closeTL s \<and>
   gsap_calls (browser_focus t s) = gsap_calls s \<and> mdoc (browser_focus t s) = mdoc s"
  by (simp add: browser_focus_def split: target.splits)

lemma handles_ok_cong:
  "openTL s' = openTL s \<Longrightarrow> closeTL s' = closeTL s \<Longrightarrow> gsap_calls s' = gsap_calls s \<Longrightarrow>
   handles_ok s' = handles_ok s"
  by (simp add: handles_ok_iff timelines_created_def)

lemma handles_ok_on_click: "handles_ok s \<Longrightarrow> handles_ok (on_click t s)"
  by (simp add: on_click_def handles_ok_openModal handles_ok_closeModal split: option.splits)

lemma handles_ok_on_keydown: "handles_ok s \<Longrightarrow> handles_ok (on_keydown k s)"
  by (simp add: on_keydown_def handles_ok_closeModal split: option.splits)

lemma handles_ok_step: "handles_ok s \<Longrightarrow> handles_ok (m_step s e)"
proof (cases e)
  case (MClick t)
  assume "handles_ok s"
  then show ?thesis using MClick by (simp add: handles_ok_on_click)
next
  case (MKeyDown k)
  assume "handles_ok s"
  then show ?thesis using MKeyDown by (simp add: handles_ok_on_keydown)
next
  case (MFocusIn t)
  assume "handles_ok s"
  then show ?thesis
    using MFocusIn handles_ok_cong [of "on_focusin t (browser_focus t s)" s]
    by (simp add: on_focusin_keeps browser_focus_keeps)
next
  case MCloseDone
  assume "handles_ok s"
  then show ?thesis
    using MCloseDone handles_ok_cong [of "closeTL_complete s" s] by (simp add: closeTL_complete_keeps)
next
  case (MDomChange d)
  assume "handles_ok s"
  then show ?thesis
    using MDomChange handles_ok_cong [of "s\<lparr>mdoc := d\<rparr>" s] by simp
next
  case (MFocusable fs)
  assume "handles_ok s"
  then show ?thesis
    using MFocusable handles_ok_cong [of "s\<lparr>can_focus := fs\<rparr>" s] by simp
qed

lemma handles_ok_run: "handles_ok s \<Longrightarrow> handles_ok (m_run s evs)"
  unfolding m_run_def by (induction evs arbitrary: s) (simp_all add: handles_ok_step)

lemma handles_ok_init: "handles_ok (initModal d a fs)"
  by (simp add: handles_ok_iff initModal_def timelines_created_def)

text \<open>Once both handles are set, no step changes them or creates a timeline.\<close>

lemma built_openModal:
  "built s \<Longrightarrow> openTL (openModal s) = openTL s \<and> closeTL (openModal s) = closeTL s \<and>
     timelines_created (openModal s) = timelines_created s"
proof (cases "getModalEls (mdoc s)")
  case None
  then show ?thesis by (simp add: openModal_absent timelines_created_def)
next
  case (Some els)
  assume "built s"
  then obtain tline where "openTL s = Some tline" by (auto simp: built_def)
  from openModal_reuses [OF Some this] this show ?thesis by simp
qed

lemma built_closeModal:
  "built s \<Longrightarrow> openTL (closeModal s) = openTL s \<and> closeTL (closeModal s) = closeTL s \<and>
     timelines_created (closeModal s) = timelines_created s"
proof (cases "getModalEls (mdoc s)")
  case None
  then show ?thesis by (simp add: closeModal_absent)
next
  case (Some els)
  assume "built s"
  then obtain tline where "closeTL s = Some tline" by (auto simp: built_def)
  from closeModal_reuses [OF Some this] this show ?thesis by simp
qed

lemma built_step:
  "built s \<Longrightarrow> openTL (m_step s e) = openTL s \<and> closeTL (m_step s e) = closeTL s \<and>
     timelines_created (m_step s e) = timelines_created s"
proof (cases e)
  case (MClick t)
  assume "built s"
  then show ?thesis
    using MClick built_openModal [of s] built_closeModal [of s]
    by (simp add: on_click_def split: option.splits)
next
  case (MKeyDown k)
  assume "built s"
  then show ?thesis
    using MKeyDown built_closeModal [of s] by (simp add: on_keydown_def split: option.splits)
next
  case (MFocusIn t)
  then show ?thesis by (simp add: on_focusin_keeps browser_focus_keeps timelines_created_def)
next
  case MCloseDone
  then show ?thesis by (simp add: closeTL_complete_keeps timelines_created_def)
next
  case (MDomChange d)
  then show ?thesis by (simp add: timelines_created_def)
next
  case (MFocusable fs)
  then show ?thesis by (simp add: timelines_created_def)
qed

lemma built_run:
  "built s \<Longrightarrow> openTL (m_run s evs) = openTL s \<and> closeTL (m_run s evs) = closeTL s \<and>
     timelines_created (m_run s evs) = timelines_created s"
proof (induction evs arbitrary: s)
  case Nil
  then show ?case by (simp add: m_run_def)
next
  case (Cons e evs)
  have step: "openTL (m_step s e) = openTL s \<and> closeTL (m_step s e) = closeTL s \<and>
      timelines_created (m_step s e) = timelines_created s"
    by (rule built_step [OF Cons.prems])
  then have "built (m_step s e)"
    using Cons.prems by (simp add: built_def)
  from Cons.IH [OF this] step show ?case by (simp add: m_run_def)
qed

text \<open>The controller's own writes do not change what a query for the targets returns.\<close>

lemma targets_openModal: "targets_now (mdoc (openModal s)) = targets_now (mdoc s)"
proof (cases "getModalEls (mdoc s)")
  case None
  then show ?thesis by (simp add: openModal_absent)
next
  case (Some els)
  then show ?thesis
    by (simp add: mdoc_openModal targets_now_map_el harmless_aria_hidden harmless_mark_open)
qed

lemma targets_close_callback: "targets_now (mdoc (close_callback s m)) = targets_now (mdoc s)"
  by (simp add: mdoc_close_callback targets_now_map_el harmless_aria_hidden harmless_mark_closed)

lemma targets_callbacks: "targets_now (mdoc (foldl close_callback s ms)) = targets_now (mdoc s)"
  by (induction ms arbitrary: s) (simp_all add: targets_close_callback)

lemma targets_closeTL_complete: "targets_now (mdoc (closeTL_complete s)) = targets_now (mdoc s)"
  by (simp add: closeTL_complete_def targets_callbacks)

lemma targets_now_Some:
  "getModalEls d = Some els \<Longrightarrow> targets_now d = Some (node_id (backdrop els), node_id (content els))"
  by (simp add: targets_now_def)

lemma current_openModal:
  assumes "handles_ok s" and "current_handles s"
  shows "current_handles (openModal s)"
proof (cases "getModalEls (mdoc s)")
  case None
  then show ?thesis
    using assms(2) openModal_absent [OF None] by (simp add: current_handles_def split: option.splits)
next
  case (Some els)
  show ?thesis
  proof (cases "openTL s")
    case None
    show ?thesis
    proof (cases "backdrop els")
      case absent: None
      then show ?thesis
        using openModal_throws [OF Some absent None] by (simp add: current_handles_def)
    next
      case (Some b)
      then have "backdrop els \<noteq> None" by simp
      then show ?thesis
        using openModal_builds [OF \<open>getModalEls (mdoc s) = Some els\<close> _ None]
          targets_now_Some [OF \<open>getModalEls (mdoc s) = Some els\<close>]
        by (auto simp: current_handles_def targets_openModal split: option.splits)
    qed
  next
    case (Some tline)
    then show ?thesis
      using assms(2) openModal_reuses [OF \<open>getModalEls (mdoc s) = Some els\<close> Some]
      by (auto simp: current_handles_def targets_openModal split: option.splits)
  qed
qed

lemma current_closeModal:
  assumes "handles_ok s" and "current_handles s"
  shows "current_handles (closeModal s)"
proof (cases "getModalEls (mdoc s)")
  case None
  then show ?thesis using assms(2) by (simp add: closeModal_absent)
next
  case (Some els)
  show ?thesis
  proof (cases "closeTL s")
    case None
    show ?thesis
    proof (cases "backdrop els")
      case absent: None
      then show ?thesis
        using assms(2) closeModal_throws [OF Some absent None]
        by (simp add: current_handles_def split: option.splits)
    next
      case (Some b)
      then have "backdrop els \<noteq> None" by simp
      then show ?thesis
        using closeModal_builds [OF \<open>getModalEls (mdoc s) = Some els\<close> _ None]
          targets_now_Some [OF \<open>getModalEls (mdoc s) = Some els\<close>]
        by (auto simp: current_handles_def mdoc_closeModal split: option.splits)
    qed
  next
    case (Some tline)
    then show ?thesis
      using assms(2) closeModal_reuses [OF \<open>getModalEls (mdoc s) = Some els\<close> Some]
      by (auto simp: current_handles_def mdoc_closeModal split: option.splits)
  qed
qed

lemma current_cong:
  "openTL s' = openTL s \<Longrightarrow> closeTL s' = closeTL s \<Longrightarrow>
   targets_now (mdoc s') = targets_now (mdoc s) \<Longrightarrow> current_handles s' = current_handles s"
  by (simp add: current_handles_def split: option.splits)

lemma current_step:
  assumes "handles_ok s" and "current_handles s" and "\<not> is_dom_change e"
  shows "current_handles (m_step s e)"
proof (cases e)
  case (MClick t)
  then show ?thesis
    using assms by (simp add: on_click_def current_openModal current_closeModal split: option.splits)
next
  case (MKeyDown k)
  then show ?thesis
    using assms by (simp add: on_keydown_def current_closeModal split: option.splits)
next
  case (MFocusIn t)
  then show ?thesis
    using assms(2) current_cong [of "on_focusin t (browser_focus t s)" s]
    by (simp add: on_focusin_keeps browser_focus_keeps)
next
  case MCloseDone
  then show ?thesis
    using assms(2) current_cong [of "closeTL_complete s" s]
    by (simp add: closeTL_complete_keeps targets_closeTL_complete)
next
  case (MDomChange d)
  then show ?thesis using assms(3) by (simp add: is_dom_change_def)
next
  case (MFocusable fs)
  then show ?thesis
    using assms(2) current_cong [of "s\<lparr>can_focus := fs\<rparr>" s] by simp
qed

lemma current_run:
  "handles_ok s \<Longrightarrow> current_handles s \<Longrightarrow> \<forall>e \<in> set evs. \<not> is_dom_change e \<Longrightarrow>
   current_handles (m_run s evs)"
proof (induction evs arbitrary: s)
  case Nil
  then show ?case by (simp add: m_run_def)
next
  case (Cons e evs)
  have "handles_ok (m_step s e)"
    by (rule handles_ok_step [OF Cons.prems(1)])
  moreover have "current_handles (m_step s e)"
    using current_step [OF Cons.prems(1,2)] Cons.prems(3) by simp
  ultimately have "current_handles (m_run (m_step s e) evs)"
    using Cons.IH Cons.prems(3) by simp
  then show ?case by (simp add: m_run_def)
qed

lemma current_init: "current_handles (initModal d a fs)"
  by (simp add: current_handles_def initModal_def)

lemma handles_ok_built: "handles_ok s \<Longrightarrow> openTL s \<noteq> None \<Longrightarrow> built s"
  by (auto simp: handles_ok_iff built_def)

text \<open>
  Timelines that are current stay current exactly as long as a query returns the same
  backdrop and content.
\<close>

lemma current_later:
  assumes "built s" and "current_handles s"
  shows "current_handles (m_run s evs) \<longleftrightarrow> targets_now (mdoc (m_run s evs)) = targets_now (mdoc s)"
proof -
  obtain tline where tline: "openTL s = Some tline"
    using assms(1) by (auto simp: built_def)
  obtain p where p: "targets_now (mdoc s) = Some p" "tline = [fst p, snd p]"
      "closeTL s = Some [snd p, fst p]"
    using assms(2) tline by (auto simp: current_handles_def split: option.splits)
  have same: "openTL (m_run s evs) = Some tline" "closeTL (m_run s evs) = Some [snd p, fst p]"
    using built_run [OF assms(1), of evs] tline p(3) by simp_all
  show ?thesis
  proof
    assume "current_handles (m_run s evs)"
    then obtain q where q: "targets_now (mdoc (m_run s evs)) = Some q" "tline = [fst q, snd q]"
      using same by (auto simp: current_handles_def split: option.splits)
    then have "q = p"
      using p(2) by (simp add: prod_eq_iff)
    then show "targets_now (mdoc (m_run s evs)) = targets_now (mdoc s)"
      using q(1) p(1) by simp
  next
    assume "targets_now (mdoc (m_run s evs)) = targets_now (mdoc s)"
    then show "current_handles (m_run s evs)"
      using same p by (simp add: current_handles_def)
  qed
qed

text \<open>
  C6, as the code has it. After \<^verbatim>\<open>initModal\<close> and any events, changes of the document from
  outside included: the two handles are both \<^verbatim>\<open>null\<close> and no timeline was created, or
  both are set and exactly two timelines were created; while they are \<^verbatim>\<open>null\<close>, a call
  of \<^verbatim>\<open>openModal\<close> or of \<^verbatim>\<open>closeModal\<close> that finds the modal and its backdrop sets both,
  from the backdrop and the content it found; once set they stay as they are and no
  timeline is created, whatever follows, and every later \<^verbatim>\<open>openModal\<close> and \<^verbatim>\<open>closeModal\<close>
  that finds a modal plays the cached timeline. The elements are looked up anew at
  every call: after any change of the document, \<^verbatim>\<open>openModal\<close> marks the modal of the
  document as it is then. The code never resets the cached timelines. Without a change
  of the document from outside, their targets are the backdrop and the content a query
  returns; after such changes they still are exactly when a query returns the same
  backdrop and the same content as before, whether or not the modal element itself was
  removed.
\<close>

theorem timelines_built_once_and_cached:
  "handles_ok (reached d a fs evs) \<and>
   (\<forall>els. openTL (reached d a fs evs) = None \<and> getModalEls (mdoc (reached d a fs evs)) = Some els \<and>
        backdrop els \<noteq> None \<longrightarrow>
      openTL (openModal (reached d a fs evs)) = Some [node_id (backdrop els), node_id (content els)] \<and>
      closeTL (openModal (reached d a fs evs)) = Some [node_id (content els), node_id (backdrop els)] \<and>
      openTL (closeModal (reached d a fs evs)) = Some [node_id (backdrop els), node_id (content els)] \<and>
      closeTL (closeModal (reached d a fs evs)) = Some [node_id (content els), node_id (backdrop els)]) \<and>
   (openTL (reached d a fs evs) \<noteq> None \<longrightarrow>
      openTL (m_run (reached d a fs evs) later_evs) = openTL (reached d a fs evs) \<and>
      closeTL (m_run (reached d a fs evs) later_evs) = closeTL (reached d a fs evs) \<and>
      timelines_created (m_run (reached d a fs evs) later_evs) = 2) \<and>
   (\<forall>d' els' otl ctl. getModalEls d' = Some els' \<and> openTL (reached d a fs evs) = Some otl \<and>
        closeTL (reached d a fs evs) = Some ctl \<longrightarrow>
      last (gsap_calls (openModal ((reached d a fs evs)\<lparr>mdoc := d'\<rparr>))) = Play otl \<and>
      last (gsap_calls (closeModal ((reached d a fs evs)\<lparr>mdoc := d'\<rparr>))) = Play ctl) \<and>
   (\<forall>d' els'. getModalEls d' = Some els' \<longrightarrow>
      (\<exists>e. modal_el (mdoc (openModal ((reached d a fs evs)\<lparr>mdoc := d'\<rparr>))) = Some e \<and>
           nid e = nid (el (modal els')) \<and> ''is-open'' \<in> set (classes e))) \<and>
   ((\<forall>e \<in> set evs. \<not> is_dom_change e) \<longrightarrow> current_handles (reached d a fs evs)) \<and>
   (openTL (reached d a fs evs) \<noteq> None \<and> current_handles (reached d a fs evs) \<longrightarrow>
      current_handles (m_run (reached d a fs evs) later_evs)
        = (targets_now (mdoc (m_run (reached d a fs evs) later_evs))
             = targets_now (mdoc (reached d a fs evs))))"
proof -
  let ?s = "reached d a fs evs"
  have ok: "handles_ok ?s"
    unfolding reached_def by (rule handles_ok_run [OF handles_ok_init])
  have lazy: "openTL (openModal ?s) = Some [node_id (backdrop els), node_id (content els)] \<and>
      closeTL (openModal ?s) = Some [node_id (content els), node_id (backdrop els)] \<and>
      openTL (closeModal ?s) = Some [node_id (backdrop els), node_id (content els)] \<and>
      closeTL (closeModal ?s) = Some [node_id (content els), node_id (backdrop els)]"
    if "openTL ?s = None" "getModalEls (mdoc ?s) = Some els" "backdrop els \<noteq> None" for els
  proof -
    have "closeTL ?s = None"
      using ok that(1) by (auto simp: handles_ok_iff)
    then show ?thesis
      using openModal_builds [OF that(2,3,1)] closeModal_builds [OF that(2,3)] by simp
  qed
  have cached: "openTL (m_run ?s later_evs) = openTL ?s \<and> closeTL (m_run ?s later_evs) = closeTL ?s \<and>
      timelines_created (m_run ?s later_evs) = 2"
    if "openTL ?s \<noteq> None"
  proof -
    have "timelines_created ?s = 2"
      using ok that by (auto simp: handles_ok_iff)
    then show ?thesis
      using built_run [OF handles_ok_built [OF ok that], of later_evs] by simp
  qed
  have reuse: "last (gsap_calls (openModal (?s\<lparr>mdoc := d'\<rparr>))) = Play otl \<and>
      last (gsap_calls (closeModal (?s\<lparr>mdoc := d'\<rparr>))) = Play ctl"
    if "getModalEls d' = Some els'" "openTL ?s = Some otl" "closeTL ?s = Some ctl" for d' els' otl ctl
    using openModal_reuses [of "?s\<lparr>mdoc := d'\<rparr>" els' otl]
      closeModal_reuses [of "?s\<lparr>mdoc := d'\<rparr>" els' ctl] that
    by simp
  have requery: "\<exists>e. modal_el (mdoc (openModal (?s\<lparr>mdoc := d'\<rparr>))) = Some e \<and>
      nid e = nid (el (modal els')) \<and> ''is-open'' \<in> set (classes e)"
    if "getModalEls d' = Some els'" for d' els'
    using modal_el_opened [of "?s\<lparr>mdoc := d'\<rparr>" els'] that
    by (simp add: aria_hidden_def mark_open_def add_token_def)
  have fresh: "current_handles ?s" if "\<forall>e \<in> set evs. \<not> is_dom_change e"
    unfolding reached_def
    by (rule current_run [OF handles_ok_init current_init that])
  have stale: "current_handles (m_run ?s later_evs)
      = (targets_now (mdoc (m_run ?s later_evs)) = targets_now (mdoc ?s))"
    if "openTL ?s \<noteq> None" "current_handles ?s"
    by (rule current_later [OF handles_ok_built [OF ok that(1)] that(2)])
  show ?thesis
    using ok lazy cached reuse requery fresh stale by blast
qed

theorem timelines_built_once_and_cached_witness:
  "openTL (reached modal_page None [1, 7, 9] []) = None \<and>
   getModalEls (mdoc (reached modal_page None [1, 7, 9] [])) \<noteq> None \<and>
   openTL (openModal (reached modal_page None [1, 7, 9] [])) = Some [Some 4, Some 5] \<and>
   closeTL (openModal (reached modal_page None [1, 7, 9] [])) = Some [Some 5, Some 4] \<and>
   openTL (closeModal (reached modal_page None [1, 7, 9] [])) = Some [Some 4, Some 5] \<and>
   openTL (reached modal_page None [1, 7, 9] [MClick (Element 2)]) \<noteq> None \<and>
   openTL (m_run (reached modal_page None [1, 7, 9] [MClick (Element 2)])
      [MDomChange modal_page2, MClick (Element 2), MKeyDown ''Escape''])
     = openTL (reached modal_page None [1, 7, 9] [MClick (Element 2)]) \<and>
   timelines_created (m_run (reached modal_page None [1, 7, 9] [MClick (Element 2)])
      [MDomChange modal_page2, MClick (Element 2), MKeyDown ''Escape'']) = 2 \<and>
   getModalEls modal_page2 \<noteq> None \<and>
   last (gsap_calls (openModal
      ((reached modal_page None [1, 7, 9] [MClick (Element 2)])\<lparr>mdoc := modal_page2\<rparr>)))
     = Play [Some 4, Some 5] \<and>
   (\<exists>e. modal_el (mdoc (openModal
          ((reached modal_page None [1, 7, 9] [MClick (Element 2)])\<lparr>mdoc := modal_page2\<rparr>)))
          = Some e \<and> nid e = 13 \<and> ''is-open'' \<in> set (classes e)) \<and>
   \<not> is_dom_change (MClick (Element 2)) \<and>
   current_handles (reached modal_page None [1, 7, 9] [MClick (Element 2)]) \<and>
   targets_now (mdoc (m_run (reached modal_page None [1, 7, 9] [MClick (Element 2)])
      [MDomChange modal_page2, MClick (Element 2), MKeyDown ''Escape'']))
     \<noteq> targets_now (mdoc (reached modal_page None [1, 7, 9] [MClick (Element 2)])) \<and>
   \<not> current_handles (m_run (reached modal_page None [1, 7, 9] [MClick (Element 2)])
      [MDomChange modal_page2, MClick (Element 2), MKeyDown ''Escape''])"
proof -
  let ?s0 = "reached modal_page None [1, 7, 9] []"
  let ?s1 = "reached modal_page None [1, 7, 9] [MClick (Element 2)]"
  let ?later = "[MDomChange modal_page2, MClick (Element 2), MKeyDown ''Escape'']"
  have null: "openTL ?s0 = None"
    by code_simp
  have present: "getModalEls (mdoc ?s0) \<noteq> None"
    by code_simp
  then obtain els where els: "getModalEls (mdoc ?s0) = Some els"
    by blast
  have "map_option (\<lambda>x. (node_id (backdrop x), node_id (content x), backdrop x \<noteq> None))
      (getModalEls (mdoc ?s0)) = Some (Some 4, Some 5, True)"
    by code_simp
  then have ids: "node_id (backdrop els) = Some 4" "node_id (content els) = Some 5"
      "backdrop els \<noteq> None"
    using els by simp_all
  have lazy: "openTL (openModal ?s0) = Some [Some 4, Some 5] \<and>
      closeTL (openModal ?s0) = Some [Some 5, Some 4] \<and>
      openTL (closeModal ?s0) = Some [Some 4, Some 5]"
    using timelines_built_once_and_cached [of modal_page None "[1, 7, 9]" "[]" "[]"] null els ids
    by simp
  have set1: "openTL ?s1 = Some [Some 4, Some 5]" "closeTL ?s1 = Some [Some 5, Some 4]"
    by code_simp+
  have present2: "getModalEls modal_page2 \<noteq> None"
    by code_simp
  then obtain els2 where els2: "getModalEls modal_page2 = Some els2"
    by blast
  have "map_option (\<lambda>x. nid (el (modal x))) (getModalEls modal_page2) = Some 13"
    by code_simp
  then have id2: "nid (el (modal els2)) = 13"
    using els2 by simp
  have nodom: "\<not> is_dom_change (MClick (Element 2))"
    by (simp add: is_dom_change_def)
  then have nodoms: "\<forall>e \<in> set [MClick (Element 2)]. \<not> is_dom_change e"
    by simp
  note main = timelines_built_once_and_cached
    [of modal_page None "[1, 7, 9]" "[MClick (Element 2)]" ?later]
  have cached: "openTL (m_run ?s1 ?later) = openTL ?s1 \<and> timelines_created (m_run ?s1 ?later) = 2"
    using main set1 by simp
  have reuse: "last (gsap_calls (openModal (?s1\<lparr>mdoc := modal_page2\<rparr>))) = Play [Some 4, Some 5]"
    using main set1 els2 by blast
  have requery: "\<exists>e. modal_el (mdoc (openModal (?s1\<lparr>mdoc := modal_page2\<rparr>))) = Some e \<and>
      nid e = 13 \<and> ''is-open'' \<in> set (classes e)"
    using main els2 id2 by metis
  have cur: "current_handles ?s1"
    using main nodoms by blast
  have moved: "targets_now (mdoc (m_run ?s1 ?later)) \<noteq> targets_now (mdoc ?s1)"
    by code_simp
  have stale: "\<not> current_handles (m_run ?s1 ?later)"
    using main set1(1) cur moved by simp
  show ?thesis
    using null present lazy set1(1) cached present2 reuse requery nodom cur moved stale by simp
qed

text \<open>
  The claim as the specification states it has the cached timelines go out of date
  only if the modal element is removed. The host page puts a new backdrop in the place
  of the old one and leaves the modal element where it is: a query finds the same
  modal element and the new backdrop, and the cached timelines still aim at the old
  one. Nor are the timelines dropped when the modal element is removed and another
  one is found: the handles are the same after it, and no timeline is created.
\<close>

theorem stale_with_the_modal_in_place:
  "map_option nid (modal_el modal_page) = Some 3 \<and>
   map_option nid (modal_el new_backdrop_page) = Some 3 \<and>
   current_handles (reached modal_page None [1, 7, 9] [MClick (Element 2)]) \<and>
   openTL (reached modal_page None [1, 7, 9] [MClick (Element 2), MDomChange new_backdrop_page])
     = Some [Some 4, Some 5] \<and>
   targets_now (mdoc (reached modal_page None [1, 7, 9]
      [MClick (Element 2), MDomChange new_backdrop_page])) = Some (Some 24, Some 5) \<and>
   \<not> current_handles (reached modal_page None [1, 7, 9]
      [MClick (Element 2), MDomChange new_backdrop_page]) \<and>
   map_option nid (modal_el modal_page2) = Some 13 \<and>
   openTL (reached modal_page None [1, 7, 9]
      [MClick (Element 2), MDomChange modal_page2, MClick (Element 2)]) = Some [Some 4, Some 5] \<and>
   timelines_created (reached modal_page None [1, 7, 9]
      [MClick (Element 2), MDomChange modal_page2, MClick (Element 2)]) = 2"
  by code_simp

section \<open>Properties of the button hover tweens\<close>

lemma last_writer_snoc: "last_writer p (tws @ [tw]) = later p (last_writer p tws) tw"
  by (simp add: last_writer_def)

lemma last_writer_ends:
  "last_writer p tws = Some (e, v) \<Longrightarrow> \<exists>tw \<in> set tws. ends tw = e"
proof (induction tws arbitrary: e v rule: rev_induct)
  case Nil
  then show ?case by (simp add: last_writer_def)
next
  case (snoc tw tws)
  then show ?case
    by (auto simp: last_writer_snoc later_def split: option.splits if_splits)
qed

lemma bounded_step: "bounded b \<Longrightarrow> bounded (btn_step b e)"
  by (cases e)
     (auto simp: bounded_def list_all_iff on_mouseenter_def on_mouseleave_def on_focus_def
        on_blur_def gsap_to_def)

lemma bounded_run: "bounded b \<Longrightarrow> bounded (btn_run b evs)"
  unfolding btn_run_def by (induction evs arbitrary: b) (simp_all add: bounded_step)

lemma bounded_fresh: "bounded (fresh_button ps)"
  by (simp add: bounded_def fresh_button_def)

lemma leave_wins:
  assumes "bounded b"
  shows "last_writer ''y'' (tweens (on_mouseleave b)) = Some (now b + 280, Num 0)"
    and "last_writer ''scale'' (tweens (on_mouseleave b)) = Some (now b + 280, Num 1)"
proof -
  have le: "e \<le> now b + 280" if "last_writer p (tweens b) = Some (e, v)" for p e v
    using last_writer_ends [OF that] assms by (auto simp: bounded_def list_all_iff)
  show "last_writer ''y'' (tweens (on_mouseleave b)) = Some (now b + 280, Num 0)"
    using le [of "''y''"]
    by (auto simp: on_mouseleave_def gsap_to_def last_writer_snoc later_def split: option.splits)
  show "last_writer ''scale'' (tweens (on_mouseleave b)) = Some (now b + 280, Num 1)"
    using le [of "''scale''"]
    by (auto simp: on_mouseleave_def gsap_to_def last_writer_snoc later_def split: option.splits)
qed

lemma other_step_keeps:
  "\<not> is_hover e \<Longrightarrow> p = ''y'' \<or> p = ''scale'' \<Longrightarrow>
   last_writer p (tweens (btn_step b e)) = last_writer p (tweens b)"
  by (cases e)
     (auto simp: is_hover_def on_focus_def on_blur_def gsap_to_def last_writer_snoc later_def)

lemma other_run_keeps:
  "\<forall>e \<in> set evs. \<not> is_hover e \<Longrightarrow> p = ''y'' \<or> p = ''scale'' \<Longrightarrow>
   last_writer p (tweens (btn_run b evs)) = last_writer p (tweens b)"
proof (induction evs arbitrary: b)
  case Nil
  then show ?case by (simp add: btn_run_def)
next
  case (Cons e evs)
  have "last_writer p (tweens (btn_run (btn_step b e) evs)) = last_writer p (tweens (btn_step b e))"
    using Cons.IH [of "btn_step b e"] Cons.prems by simp
  also have "\<dots> = last_writer p (tweens b)"
    using other_step_keeps [of e p b] Cons.prems by simp
  finally show ?case by (simp add: btn_run_def)
qed

lemma btn_run_append: "btn_run b (xs @ ys) = btn_run (btn_run b xs) ys"
  by (simp add: btn_run_def)

lemma btn_run_Cons: "btn_run b (e # evs) = btn_run (btn_step b e) evs"
  by (simp add: btn_run_def)

lemma rest_after_leave:
  assumes "bounded b" and "\<forall>e \<in> set ws. \<not> is_hover e"
  shows "rest_value (btn_run (on_mouseleave b) ws) ''y'' = Some (Num 0)"
    and "rest_value (btn_run (on_mouseleave b) ws) ''scale'' = Some (Num 1)"
  using other_run_keeps [OF assms(2), of "''y''" "on_mouseleave b"]
    other_run_keeps [OF assms(2), of "''scale''" "on_mouseleave b"]
    leave_wins [OF assms(1)]
  by (simp_all add: rest_value_def)

lemma leave_rests:
  assumes "\<forall>e \<in> set ws. \<not> is_hover e"
  shows "rest_value (btn_run (fresh_button ps) (hs @ MouseLeave # ws)) ''y'' = Some (Num 0)"
    and "rest_value (btn_run (fresh_button ps) (hs @ MouseLeave # ws)) ''scale'' = Some (Num 1)"
proof -
  let ?b = "btn_run (fresh_button ps) hs"
  have run: "btn_run (fresh_button ps) (hs @ MouseLeave # ws) = btn_run (on_mouseleave ?b) ws"
    by (simp add: btn_run_def)
  have b: "bounded ?b"
    by (rule bounded_run [OF bounded_fresh])
  show "rest_value (btn_run (fresh_button ps) (hs @ MouseLeave # ws)) ''y'' = Some (Num 0)"
    unfolding run by (rule rest_after_leave(1) [OF b assms])
  show "rest_value (btn_run (fresh_button ps) (hs @ MouseLeave # ws)) ''scale'' = Some (Num 1)"
    unfolding run by (rule rest_after_leave(2) [OF b assms])
qed

text \<open>Each button of the page goes through the events that reach it, and no others.\<close>

lemma page_step_each:
  "page_step (map (\<lambda>r. (fst r, f (fst r) (snd r))) pg) ev
     = map (\<lambda>r. (fst r, (if affects (fst r) ev then btn_step (f (fst r) (snd r)) (snd ev)
                               else f (fst r) (snd r)))) pg"
  by (simp add: page_step_def comp_def)

lemma page_run_each:
  "page_run pg evs = map (\<lambda>r. (fst r, btn_run (snd r) (events_of (fst r) evs))) pg"
proof (induction evs rule: rev_induct)
  case Nil
  then show ?case by (simp add: page_run_def events_of_def btn_run_def)
next
  case (snoc ev evs)
  have "page_run pg (evs @ [ev]) = page_step (page_run pg evs) ev"
    by (simp add: page_run_def)
  also have "\<dots> = page_step (map (\<lambda>r. (fst r, btn_run (snd r) (events_of (fst r) evs))) pg) ev"
    by (simp add: snoc.IH)
  also have "\<dots> = map (\<lambda>r. (fst r, btn_run (snd r) (events_of (fst r) (evs @ [ev])))) pg"
    by (simp add: page_step_def comp_def events_of_def btn_run_def)
  finally show ?case .
qed

lemma page_run_init:
  "page_run (initButtonInteractions d style) evs
     = map (\<lambda>n. (nid (el n), btn_run (fresh_button (style (nid (el n)))) (events_of (nid (el n)) evs)))
         (qsa d (ByClass ''btn''))"
  by (simp add: page_run_each initButtonInteractions_def comp_def)

text \<open>
  C8, as the code has it. Every element of class \<^verbatim>\<open>btn\<close> is a button of the page. Whatever
  reached a button before, and whatever values its translate-y and scale would have
  come to rest at, a pointer-enter followed by a pointer-leave (with time passing and
  focus changes in between and after) brings its translate-y to rest at 0 and its scale
  at 1. The pair is a round trip to the values from before the pointer-enter exactly
  when those were 0 and 1.
\<close>

theorem hover_leave_rests_at_identity:
  assumes "events_of i evs = hs @ MouseEnter # mid @ MouseLeave # ws"
    and "\<forall>e \<in> set mid. \<not> is_hover e" and "\<forall>e \<in> set ws. \<not> is_hover e"
  shows "(\<forall>n \<in> set (qsa d (ByClass ''btn'')).
            \<exists>b. (nid (el n), b) \<in> set (page_run (initButtonInteractions d style) evs)) \<and>
         (\<forall>b. (i, b) \<in> set (page_run (initButtonInteractions d style) evs) \<longrightarrow>
            rest_value b ''y'' = Some (Num 0) \<and>
            rest_value b ''scale'' = Some (Num 1) \<and>
            ((rest_value b ''y'' = rest_value (btn_run (fresh_button (style i)) hs) ''y'' \<and>
              rest_value b ''scale'' = rest_value (btn_run (fresh_button (style i)) hs) ''scale'')
             \<longleftrightarrow>
             (rest_value (btn_run (fresh_button (style i)) hs) ''y'' = Some (Num 0) \<and>
              rest_value (btn_run (fresh_button (style i)) hs) ''scale'' = Some (Num 1))))"
proof -
  have each: "\<exists>b. (nid (el n), b) \<in> set (page_run (initButtonInteractions d style) evs)"
    if "n \<in> set (qsa d (ByClass ''btn''))" for n
    using that by (auto simp: page_run_init image_iff)
  have rests: "rest_value b ''y'' = Some (Num 0) \<and> rest_value b ''scale'' = Some (Num 1)"
    if "(i, b) \<in> set (page_run (initButtonInteractions d style) evs)" for b
  proof -
    have "b = btn_run (fresh_button (style i)) (events_of i evs)"
      using that by (auto simp: page_run_init)
    then have "b = btn_run (fresh_button (style i)) ((hs @ MouseEnter # mid) @ MouseLeave # ws)"
      by (simp add: assms(1))
    then show ?thesis
      using leave_rests [OF assms(3), of "style i" "hs @ MouseEnter # mid"] by simp
  qed
  show ?thesis
    using each rests by auto
qed

theorem hover_leave_rests_at_identity_witness:
  "events_of 1 [(1, MouseEnter), (0, Wait 100), (1, MouseLeave), (1, Focus)]
     = [] @ MouseEnter # [Wait 100] @ MouseLeave # [Focus] \<and>
   \<not> is_hover (Wait 100) \<and> \<not> is_hover Focus \<and>
   rest_value (fresh_button (untouched 1)) ''y'' = Some (Num 0) \<and>
   rest_value (fresh_button (untouched 1)) ''scale'' = Some (Num 1) \<and>
   map (\<lambda>r. (fst r, rest_value (snd r) ''y'', rest_value (snd r) ''scale''))
     (page_run (initButtonInteractions button_page untouched)
        [(1, MouseEnter), (0, Wait 100), (1, MouseLeave), (1, Focus)])
     = [(1, Some (Num 0), Some (Num 1))]"
proof -
  let ?evs = "[(1, MouseEnter), (0, Wait 100), (1, MouseLeave), (1, Focus)]"
  have ev: "events_of 1 ?evs = [] @ MouseEnter # [Wait 100] @ MouseLeave # [Focus]"
    by (simp add: events_of_def affects_def)
  have m: "\<forall>e \<in> set [Wait 100]. \<not> is_hover e" by (simp add: is_hover_def)
  have w: "\<forall>e \<in> set [Focus]. \<not> is_hover e" by (simp add: is_hover_def)
  have h: "\<not> is_hover (Wait 100) \<and> \<not> is_hover Focus" by (simp add: is_hover_def)
  have r: "rest_value (fresh_button (untouched 1)) ''y'' = Some (Num 0)"
    "rest_value (fresh_button (untouched 1)) ''scale'' = Some (Num 1)"
    by (simp_all add: rest_value_def fresh_button_def last_writer_def untouched_def)
  have q: "qsa button_page (ByClass ''btn'')
      = [Node \<lparr>nid = 1, tag = ''a'', ident = ''viewDetailsBtn'', classes = [''btn''], attrs = []\<rparr> []]"
    by (simp add: qsa_def button_page_def)
  let ?b = "btn_run (fresh_button (untouched 1)) (events_of 1 ?evs)"
  have pg: "page_run (initButtonInteractions button_page untouched) ?evs = [(1, ?b)]"
    by (simp add: page_run_init q)
  then have "(1, ?b) \<in> set (page_run (initButtonInteractions button_page untouched) ?evs)"
    by simp
  with hover_leave_rests_at_identity [OF ev m w, of button_page untouched]
  have res: "rest_value ?b ''y'' = Some (Num 0)" "rest_value ?b ''scale'' = Some (Num 1)"
    by blast+
  have "map (\<lambda>r. (fst r, rest_value (snd r) ''y'', rest_value (snd r) ''scale''))
      (page_run (initButtonInteractions button_page untouched) ?evs)
      = [(1, rest_value ?b ''y'', rest_value ?b ''scale'')]"
    unfolding pg by (simp only: list.map fst_conv snd_conv)
  then have fin: "map (\<lambda>r. (fst r, rest_value (snd r) ''y'', rest_value (snd r) ''scale''))
      (page_run (initButtonInteractions button_page untouched) ?evs)
      = [(1, Some (Num 0), Some (Num 1))]"
    unfolding res .
  from ev h r fin show ?thesis by blast
qed

text \<open>
  The claim as the specification states it, for every button: it fails for a button
  whose scale is 1.05 before the pointer-enter, which comes to rest at 1.
\<close>

theorem hover_not_round_trip:
  "map (\<lambda>n. nid (el n)) (qsa button_page (ByClass ''btn'')) = [1] \<and>
   map (\<lambda>r. (fst r, rest_value (snd r) ''scale'')) (initButtonInteractions button_page enlarged)
     = [(1, Some (Num 1.05))] \<and>
   map (\<lambda>r. (fst r, rest_value (snd r) ''scale''))
     (page_run (initButtonInteractions button_page enlarged)
        [(1, MouseEnter), (1, Wait 500), (1, MouseLeave), (1, Wait 500)])
     = [(1, Some (Num 1))] \<and>
   Num 1 \<noteq> Num 1.05"
  by (simp add: qsa_def button_page_def initButtonInteractions_def enlarged_def page_run_def
      page_step_def affects_def rest_value_def fresh_button_def last_writer_def later_def
      on_mouseenter_def on_mouseleave_def gsap_to_def)


end
